theory Spec2Isabelle
  imports Complex_Main "HOL-Library.Char_ord" "HOL-Library.List_Lexorder"
    "HOL-Library.Product_Lexorder"
begin

section \<open>Data model: documents of the store\<close>

text \<open>
  The dashboard (\<^verbatim>\<open>app.py\<close>) reads two collections of a document store, \<^verbatim>\<open>cars\<close> and
  \<^verbatim>\<open>dealers\<close>. A document is an ordered list of fields; a value is null, a number, a string,
  a date, an array or an embedded document. A number is the rational it denotes: the store
  compares and groups int32, int64 and double by numeric value (decimal128 values,
  infinities and NaN are not modelled). Where the store computes in double precision, in
  \<^verbatim>\<open>$avg\<close>, the model rounds as the store does. Dates have millisecond resolution.
\<close>

datatype error = ValueError | KeyError | TypeError | OperationFailure

record datetime =
  year :: int
  month :: int
  day :: int
  millis :: nat

datatype bson =
    Null
  | Num rat
  | Str string
  | Date datetime
  | Arr "bson list"
  | Doc "(string \<times> bson) list"

type_synonym doc = "(string \<times> bson) list"

text \<open>
  A query (the dict given to \<^verbatim>\<open>find\<close>, \<^verbatim>\<open>find_one\<close> or \<^verbatim>\<open>$match\<close>) maps a field path to a
  condition: a literal value (equality) or a dict of operators. The program uses
  \<^verbatim>\<open>$in\<close>, \<^verbatim>\<open>$gte\<close> and \<^verbatim>\<open>$lte\<close>.
\<close>

datatype op = In "bson list" | Gte bson | Lte bson

datatype cond = Eq bson | Ops "op list"

type_synonym query = "(string \<times> cond) list"

section \<open>The store's operators, as the program uses them\<close>

subsection \<open>Field paths\<close>

text \<open>A dotted path such as \<^verbatim>\<open>services.Date_of_Service\<close> is the list of its components.\<close>

fun split_path :: "string \<Rightarrow> string list" where
  "split_path [] = [[]]"
| "split_path (c # cs) =
     (if c = CHR ''.'' then [] # split_path cs
      else (case split_path cs of [] \<Rightarrow> [[c]] | p # ps \<Rightarrow> (c # p) # ps))"

text \<open>
  In a query, a path component applied to an embedded document reads its field; applied to
  an array it reads the field of every element that is a document (one level: arrays nested
  directly in arrays are not entered). The path's values are what is left after the last
  component; none means the field is missing. A numeric component (an array index) does
  not occur in this program's paths.
\<close>

definition field_of :: "string \<Rightarrow> bson \<Rightarrow> bson list" where
  "field_of k v =
     (case v of
        Doc kvs \<Rightarrow> (case map_of kvs k of None \<Rightarrow> [] | Some w \<Rightarrow> [w])
      | _ \<Rightarrow> [])"

definition step_path :: "string \<Rightarrow> bson \<Rightarrow> bson list" where
  "step_path k v =
     (case v of
        Arr xs \<Rightarrow> concat (map (field_of k) xs)
      | _ \<Rightarrow> field_of k v)"

primrec path_values :: "string list \<Rightarrow> bson list \<Rightarrow> bson list" where
  "path_values [] vs = vs"
| "path_values (k # ks) vs = path_values ks (concat (map (step_path k) vs))"

text \<open>
  In an aggregation expression, \<^verbatim>\<open>"$a.b"\<close> reads the field of a document and maps over an
  array (also over arrays nested in it), dropping the elements that have no such field;
  \<open>None\<close> is a missing value.
\<close>

fun descend :: "string \<Rightarrow> bson \<Rightarrow> bson option" where
  "descend k (Doc kvs) = map_of kvs k"
| "descend k (Arr xs) =
     Some (Arr (concat (map (\<lambda>x. case descend k x of None \<Rightarrow> [] | Some w \<Rightarrow> [w]) xs)))"
| "descend k Null = None"
| "descend k (Num r) = None"
| "descend k (Str s) = None"
| "descend k (Date t) = None"

primrec expr_path :: "string list \<Rightarrow> bson \<Rightarrow> bson option" where
  "expr_path [] v = Some v"
| "expr_path (k # ks) v = (case descend k v of None \<Rightarrow> None | Some w \<Rightarrow> expr_path ks w)"

subsection \<open>The order of values\<close>

text \<open>
  The store orders values of different types by type (null and missing, then numbers,
  strings, documents, arrays, dates) and values of one type by value: numbers numerically,
  strings bytewise, dates chronologically. \<open>order_key\<close> maps a value to a key of a linear
  order that has this order on null, numbers, strings and dates. The order inside
  documents and arrays is not modelled (their keys carry the type only); the pipelines
  below sort on counts, averages and years, which are numbers or null.
\<close>

type_synonym okey = "nat \<times> rat \<times> string \<times> int \<times> int \<times> int \<times> nat"

definition stamp :: "datetime \<Rightarrow> int \<times> int \<times> int \<times> nat" where
  "stamp t = (year t, month t, day t, millis t)"

fun order_key :: "bson option \<Rightarrow> okey" where
  "order_key None = (1, 0, [], 0, 0, 0, 0)"
| "order_key (Some Null) = (1, 0, [], 0, 0, 0, 0)"
| "order_key (Some (Num r)) = (2, r, [], 0, 0, 0, 0)"
| "order_key (Some (Str s)) = (3, 0, s, 0, 0, 0, 0)"
| "order_key (Some (Doc kvs)) = (4, 0, [], 0, 0, 0, 0)"
| "order_key (Some (Arr xs)) = (5, 0, [], 0, 0, 0, 0)"
| "order_key (Some (Date t)) = (9, 0, [], stamp t)"

text \<open>
  \<^verbatim>\<open>$gte\<close> and \<^verbatim>\<open>$lte\<close> compare within one type only (type bracketing): a number is never
  at least a date. The program's bounds are numbers and dates, where this is exact.
\<close>

definition bson_le :: "bson \<Rightarrow> bson \<Rightarrow> bool" where
  "bson_le a b = (fst (order_key (Some a)) = fst (order_key (Some b)) \<and>
                  order_key (Some a) \<le> order_key (Some b))"

subsection \<open>Queries\<close>

text \<open>
  A condition is tested against each value of the path and, where that value is an array,
  against each of its elements too; it holds when one of them passes. For a missing field
  it is tested against null (so equality with null also finds documents without the field).
\<close>

fun test_op :: "op \<Rightarrow> bson \<Rightarrow> bool" where
  "test_op (In ws) v = (v \<in> set ws)"
| "test_op (Gte b) v = bson_le b v"
| "test_op (Lte b) v = bson_le v b"

definition candidates :: "bson list \<Rightarrow> bson list" where
  "candidates vs =
     (if vs = [] then [Null]
      else concat (map (\<lambda>v. case v of Arr xs \<Rightarrow> v # xs | _ \<Rightarrow> [v]) vs))"

definition op_holds :: "op \<Rightarrow> bson list \<Rightarrow> bool" where
  "op_holds c vs = list_ex (test_op c) (candidates vs)"

fun cond_holds :: "cond \<Rightarrow> bson list \<Rightarrow> bool" where
  "cond_holds (Eq b) vs = op_holds (In [b]) vs"
| "cond_holds (Ops cs) vs = list_all (\<lambda>c. op_holds c vs) cs"

definition matches :: "query \<Rightarrow> doc \<Rightarrow> bool" where
  "matches q d =
     list_all (\<lambda>(p, c). cond_holds c (path_values (split_path p) [Doc d])) q"

text \<open>
  A collection is the list of its documents in the store's natural order. \<^verbatim>\<open>find\<close> returns
  the matching documents, \<^verbatim>\<open>find_one\<close> the first of them or \<^verbatim>\<open>None\<close>; \<^verbatim>\<open>limit(n)\<close> keeps the
  first \<open>n\<close>, and \<^verbatim>\<open>limit(0)\<close> is no limit. A projection that lists fields keeps them and
  \<^verbatim>\<open>_id\<close>, unless it says \<^verbatim>\<open>"_id": 0\<close>.
\<close>

definition find_docs :: "query \<Rightarrow> doc list \<Rightarrow> doc list" where
  "find_docs q coll = filter (matches q) coll"

definition find_one :: "query \<Rightarrow> doc list \<Rightarrow> doc option" where
  "find_one q coll = (case find_docs q coll of [] \<Rightarrow> None | d # _ \<Rightarrow> Some d)"

definition limit_cursor :: "nat \<Rightarrow> doc list \<Rightarrow> doc list" where
  "limit_cursor n ds = (if n = 0 then ds else take n ds)"

definition keep_fields :: "string list \<Rightarrow> doc \<Rightarrow> doc" where
  "keep_fields names d = filter (\<lambda>(k, v). k \<in> set names) d"

subsection \<open>Aggregation stages\<close>

datatype expr = Field string | Year expr

datatype group_id = IdExpr expr | IdDoc "(string \<times> expr) list"

datatype accum = SumOne | Avg expr

datatype proj = Include | Exclude | Compute expr

datatype stage =
    Match query
  | Unwind string
  | Group group_id string accum
  | Project "(string \<times> proj) list"
  | Sort string int

text \<open>
  Expressions: \<^verbatim>\<open>"$path"\<close> is the path's value, and \<^verbatim>\<open>{"$year": e}\<close> is the year of a date,
  null for null or a missing value, and an error of the operation for any other value.
\<close>

fun eval_expr :: "expr \<Rightarrow> doc \<Rightarrow> error + bson option" where
  "eval_expr (Field p) d = Inr (expr_path (split_path p) (Doc d))"
| "eval_expr (Year e) d =
     (case eval_expr e d of
        Inl err \<Rightarrow> Inl err
      | Inr None \<Rightarrow> Inr (Some Null)
      | Inr (Some Null) \<Rightarrow> Inr (Some Null)
      | Inr (Some (Date t)) \<Rightarrow> Inr (Some (Num (of_int (year t))))
      | Inr (Some _) \<Rightarrow> Inl OperationFailure)"

text \<open>The first error of a list of results, or all their values.\<close>

fun collect :: "(error + 'a) list \<Rightarrow> error + 'a list" where
  "collect [] = Inr []"
| "collect (Inl e # rs) = Inl e"
| "collect (Inr x # rs) = (case collect rs of Inl e \<Rightarrow> Inl e | Inr xs \<Rightarrow> Inr (x # xs))"

text \<open>
  \<^verbatim>\<open>$unwind\<close> of a field: one copy of the document per element of the array, the field
  replaced by the element; no copy for a missing field, null or an empty array; a value
  that is not an array counts as an array of that one element.
\<close>

definition set_field :: "string \<Rightarrow> bson \<Rightarrow> doc \<Rightarrow> doc" where
  "set_field k v d = map (\<lambda>(k', w). if k' = k then (k', v) else (k', w)) d"

definition unwind_elements :: "string \<Rightarrow> doc \<Rightarrow> bson list" where
  "unwind_elements f d =
     (case map_of d f of
        None \<Rightarrow> []
      | Some Null \<Rightarrow> []
      | Some (Arr xs) \<Rightarrow> xs
      | Some v \<Rightarrow> [v])"

definition unwind_doc :: "string \<Rightarrow> doc \<Rightarrow> doc list" where
  "unwind_doc f d = map (\<lambda>x. set_field f x d) (unwind_elements f d)"

text \<open>
  \<^verbatim>\<open>$group\<close>: the group key of a document is the value of the \<^verbatim>\<open>_id\<close> expression (null when
  missing), or for a dict of expressions the document of their values. There is one output
  document per distinct key, with the accumulator's value over the documents of that key:
  \<^verbatim>\<open>{"$sum": 1}\<close> counts them, \<^verbatim>\<open>{"$avg": e}\<close> averages the numeric values of \<open>e\<close>
  (other values are skipped; null when there is none). The store fixes no order of the
  groups; here they stand in the order of the last document of each.
\<close>

definition or_null :: "bson option \<Rightarrow> bson" where
  "or_null x = (case x of None \<Rightarrow> Null | Some v \<Rightarrow> v)"

fun group_key :: "group_id \<Rightarrow> doc \<Rightarrow> error + bson" where
  "group_key (IdExpr e) d = map_sum id or_null (eval_expr e d)"
| "group_key (IdDoc fs) d =
     map_sum id Doc
       (collect (map (\<lambda>(k, e). map_sum id (\<lambda>v. (k, or_null v)) (eval_expr e d)) fs))"

text \<open>The group key of a document under \<^verbatim>\<open>"_id": "$p"\<close>.\<close>

definition field_key :: "string \<Rightarrow> doc \<Rightarrow> bson" where
  "field_key p d = or_null (expr_path (split_path p) (Doc d))"

definition numerics :: "bson option list \<Rightarrow> rat list" where
  "numerics vs = concat (map (\<lambda>v. case v of Some (Num r) \<Rightarrow> [r] | _ \<Rightarrow> []) vs)"

text \<open>
  The store's \<^verbatim>\<open>$avg\<close> returns a double: it adds the values (in extended precision, taken as
  exact here), rounds the total to a double and divides it by the count in double
  arithmetic. \<open>to_double\<close> is IEEE 754 binary64 rounding of a rational, to the nearest double
  with ties to the even mantissa: for \<open>q = a / b\<close> with \<open>2 ^ e \<le> q < 2 ^ (e + 1)\<close> the doubles
  near \<open>q\<close> are the multiples of \<open>2 ^ (e - 52)\<close> (of \<open>2 ^ (- 1074)\<close> in the subnormal range).
  Values beyond the largest double, which round to infinity, are outside the model.
\<close>

fun bit_length :: "nat \<Rightarrow> nat" where
  "bit_length n = (if n = 0 then 0 else Suc (bit_length (n div 2)))"

declare bit_length.simps [simp del]

definition times_pow2 :: "int \<Rightarrow> int \<Rightarrow> int \<Rightarrow> int \<times> int" where
  \<comment> \<open>the fraction \<open>a / b\<close> times \<open>2 ^ s\<close>, as a fraction\<close>
  "times_pow2 a b s = (if 0 \<le> s then (a * 2 ^ nat s, b) else (a, b * 2 ^ nat (- s)))"

definition floor_log2 :: "int \<Rightarrow> int \<Rightarrow> int" where
  \<comment> \<open>the \<open>e\<close> with \<open>2 ^ e \<le> a / b < 2 ^ (e + 1)\<close>, for positive \<open>a\<close> and \<open>b\<close>\<close>
  "floor_log2 a b =
     (let e = int (bit_length (nat a)) - int (bit_length (nat b));
          (n, d) = times_pow2 a b (- e)
      in if d \<le> n then e else e - 1)"

definition round_half_even :: "int \<Rightarrow> int \<Rightarrow> int" where
  \<comment> \<open>the integer nearest to \<open>n / d\<close>, the even one of two equally near\<close>
  "round_half_even n d =
     (let f = n div d; r = n mod d
      in if 2 * r < d then f else if d < 2 * r then f + 1 else if even f then f else f + 1)"

definition to_double :: "rat \<Rightarrow> rat" where
  "to_double q =
     (if q = 0 then 0
      else let (a, b) = quotient_of \<bar>q\<bar>;
               s = 52 - max (floor_log2 a b) (- 1022);
               (n, d) = times_pow2 a b s;
               k = round_half_even n d
           in sgn q * (if 0 \<le> s then of_int k / 2 ^ nat s else of_int k * 2 ^ nat (- s)))"

definition mean :: "rat list \<Rightarrow> bson" where
  "mean rs =
     (if rs = [] then Null
      else Num (to_double (to_double (sum_list rs) / of_nat (length rs))))"

fun accumulate :: "accum \<Rightarrow> doc list \<Rightarrow> error + bson" where
  "accumulate SumOne ds = Inr (Num (of_nat (length ds)))"
| "accumulate (Avg e) ds =
     map_sum id (\<lambda>vs. mean (numerics vs)) (collect (map (eval_expr e) ds))"

definition group_stage :: "group_id \<Rightarrow> string \<Rightarrow> accum \<Rightarrow> doc list \<Rightarrow> error + doc list" where
  "group_stage gid name acc ds =
     (case collect (map (group_key gid) ds) of
        Inl e \<Rightarrow> Inl e
      | Inr keys \<Rightarrow>
          collect (map (\<lambda>k. map_sum id (\<lambda>v. [(''_id'', k), (name, v)])
                              (accumulate acc (map snd (filter (\<lambda>(k', d). k' = k) (zip keys ds)))))
                       (remdups keys)))"

text \<open>
  \<^verbatim>\<open>$project\<close> with inclusions: \<^verbatim>\<open>1\<close> keeps a field the document has, an expression adds a
  field unless its value is missing, and \<^verbatim>\<open>_id\<close> is kept unless it is given as \<^verbatim>\<open>0\<close>.
\<close>

fun project_field :: "doc \<Rightarrow> string \<times> proj \<Rightarrow> error + doc" where
  "project_field d (k, Include) = Inr (case map_of d k of None \<Rightarrow> [] | Some v \<Rightarrow> [(k, v)])"
| "project_field d (k, Exclude) = Inr []"
| "project_field d (k, Compute e) =
     map_sum id (\<lambda>v. case v of None \<Rightarrow> [] | Some w \<Rightarrow> [(k, w)]) (eval_expr e d)"

definition project_doc :: "(string \<times> proj) list \<Rightarrow> doc \<Rightarrow> error + doc" where
  "project_doc spec d =
     map_sum id concat
       (collect (map (project_field d)
          ((if map_of spec ''_id'' = None then [(''_id'', Include)] else []) @ spec)))"

text \<open>\<^verbatim>\<open>$sort\<close> on one field: \<^verbatim>\<open>1\<close> ascending, \<^verbatim>\<open>-1\<close> descending.\<close>

definition sort_stage :: "string \<Rightarrow> int \<Rightarrow> doc list \<Rightarrow> error + doc list" where
  "sort_stage f dir ds =
     (if dir = 1 then Inr (sort_key (\<lambda>d. order_key (map_of d f)) ds)
      else if dir = - 1 then Inr (rev (sort_key (\<lambda>d. order_key (map_of d f)) ds))
      else Inl OperationFailure)"

text \<open>
  The group keys of a list of documents under \<^verbatim>\<open>"_id": "$p"\<close>, in the order in which a
  descending sort on \<open>K\<close> leaves their groups. It is used to state what a pipeline returns.
\<close>

definition groups_desc :: "(bson \<Rightarrow> okey) \<Rightarrow> string \<Rightarrow> doc list \<Rightarrow> bson list" where
  "groups_desc K p ds = rev (sort_key K (remdups (map (field_key p) ds)))"

fun run_stage :: "stage \<Rightarrow> doc list \<Rightarrow> error + doc list" where
  "run_stage (Match q) ds = Inr (filter (matches q) ds)"
| "run_stage (Unwind f) ds = Inr (concat (map (unwind_doc f) ds))"
| "run_stage (Group gid name acc) ds = group_stage gid name acc ds"
| "run_stage (Project spec) ds = collect (map (project_doc spec) ds)"
| "run_stage (Sort f dir) ds = sort_stage f dir ds"

fun aggregate :: "stage list \<Rightarrow> doc list \<Rightarrow> error + doc list" where
  "aggregate [] ds = Inr ds"
| "aggregate (s # ss) ds = (case run_stage s ds of Inl e \<Rightarrow> Inl e | Inr ds' \<Rightarrow> aggregate ss ds')"

section \<open>Startup: \<^verbatim>\<open>load_filter_options\<close>\<close>

text \<open>
  \<^verbatim>\<open>distinct(field)\<close>: the distinct values of the field over the collection, the elements of
  an array each counting as a value.
\<close>

definition distinct_values :: "string \<Rightarrow> doc list \<Rightarrow> bson list" where
  "distinct_values f coll =
     remdups (concat (map (\<lambda>d. case map_of d f of
                                   None \<Rightarrow> []
                                 | Some (Arr xs) \<Rightarrow> xs
                                 | Some v \<Rightarrow> [v]) coll))"

text \<open>
  \<^verbatim>\<open>find_one(sort=[(field, dir)])\<close>: the first document in the sorted order, \<^verbatim>\<open>None\<close> for an
  empty collection. \<open>subscript\<close> is \<^verbatim>\<open>x[key]\<close> on what \<^verbatim>\<open>find_one\<close> returned: \<^verbatim>\<open>None[key]\<close>
  raises \<^verbatim>\<open>TypeError\<close>, a dict without the key \<^verbatim>\<open>KeyError\<close>.
\<close>

definition find_one_sorted :: "string \<Rightarrow> int \<Rightarrow> doc list \<Rightarrow> doc option" where
  "find_one_sorted f dir coll =
     (case sort_stage f dir coll of Inr (d # _) \<Rightarrow> Some d | _ \<Rightarrow> None)"

definition subscript :: "doc option \<Rightarrow> string \<Rightarrow> error + bson" where
  "subscript x k =
     (case x of
        None \<Rightarrow> Inl TypeError
      | Some d \<Rightarrow> (case map_of d k of None \<Rightarrow> Inl KeyError | Some v \<Rightarrow> Inr v))"

text \<open>
  The dict comprehension of line 46, \<^verbatim>\<open>{str(d["DealerID"]): d["DealerName"] for d in ...}\<close>:
  a later document replaces the value of a key already there. Python's \<^verbatim>\<open>str\<close> of a
  value is the parameter \<open>str_of\<close>.
\<close>

definition dict_put :: "'k \<Rightarrow> 'v \<Rightarrow> ('k \<times> 'v) list \<Rightarrow> ('k \<times> 'v) list" where
  "dict_put k v kvs =
     (if k \<in> fst ` set kvs then map (\<lambda>(k', w). if k' = k then (k', v) else (k', w)) kvs
      else kvs @ [(k, v)])"

fun dealers_dict ::
  "(bson \<Rightarrow> string) \<Rightarrow> (string \<times> bson) list \<Rightarrow> doc list \<Rightarrow> error + (string \<times> bson) list" where
  "dealers_dict str_of acc [] = Inr acc"
| "dealers_dict str_of acc (d # ds) =
     (case subscript (Some d) ''DealerID'' of
        Inl e \<Rightarrow> Inl e
      | Inr i \<Rightarrow>
          (case subscript (Some d) ''DealerName'' of
             Inl e \<Rightarrow> Inl e
           | Inr n \<Rightarrow> dealers_dict str_of (dict_put (str_of i) n acc) ds))"

record filter_options =
  manufacturers :: "bson list"
  fuel_types :: "bson list"
  dealers_map :: "(string \<times> bson) list"
  min_price :: bson
  max_price :: bson
  min_year :: bson
  max_year :: bson

text \<open>\<^verbatim>\<open>load_filter_options\<close> (lines 41 to 53), the two collections as parameters.\<close>

definition load_filter_options ::
  "(bson \<Rightarrow> string) \<Rightarrow> doc list \<Rightarrow> doc list \<Rightarrow> error + filter_options" where
  "load_filter_options str_of cars_coll dealers_coll =
     (let ms = distinct_values ''manufacturer'' cars_coll;
          fs = distinct_values ''fuel_type'' cars_coll;
          dealer_docs = map (keep_fields [''DealerID'', ''DealerName'']) (find_docs [] dealers_coll)
      in case dealers_dict str_of [] dealer_docs of
           Inl e \<Rightarrow> Inl e
         | Inr dm \<Rightarrow>
        (case subscript (find_one_sorted ''price'' 1 cars_coll) ''price'' of
           Inl e \<Rightarrow> Inl e
         | Inr p0 \<Rightarrow>
        (case subscript (find_one_sorted ''price'' (- 1) cars_coll) ''price'' of
           Inl e \<Rightarrow> Inl e
         | Inr p1 \<Rightarrow>
        (case subscript (find_one_sorted ''year_of_manufacturing'' 1 cars_coll)
                ''year_of_manufacturing'' of
           Inl e \<Rightarrow> Inl e
         | Inr y0 \<Rightarrow>
        (case subscript (find_one_sorted ''year_of_manufacturing'' (- 1) cars_coll)
                ''year_of_manufacturing'' of
           Inl e \<Rightarrow> Inl e
         | Inr y1 \<Rightarrow>
             Inr \<lparr>manufacturers = ms, fuel_types = fs, dealers_map = dm,
                  min_price = p0, max_price = p1, min_year = y0, max_year = y1\<rparr>)))))"

section \<open>Sidebar filters\<close>

subsection \<open>Python's \<^verbatim>\<open>int(str)\<close>\<close>

text \<open>
  \<^verbatim>\<open>int(s)\<close> strips whitespace (tab to carriage return, the separators 28 to 31, and space),
  reads an optional sign and then decimal digits, where single underscores may stand between
  digits; anything else raises \<^verbatim>\<open>ValueError\<close>. Strings are byte strings here, so digits and
  spaces beyond ASCII are not modelled.
\<close>

definition is_space :: "char \<Rightarrow> bool" where
  "is_space c = (let n = (of_char c :: nat) in (9 \<le> n \<and> n \<le> 13) \<or> (28 \<le> n \<and> n \<le> 32))"

definition is_digit :: "char \<Rightarrow> bool" where
  "is_digit c = (let n = (of_char c :: nat) in 48 \<le> n \<and> n \<le> 57)"

definition digit_val :: "char \<Rightarrow> nat" where
  "digit_val c = of_char c - 48"

definition strip :: "string \<Rightarrow> string" where
  "strip s = rev (dropWhile is_space (rev (dropWhile is_space s)))"

fun parse_digits :: "nat \<Rightarrow> string \<Rightarrow> nat option" where
  "parse_digits acc [] = Some acc"
| "parse_digits acc [c] = (if is_digit c then Some (10 * acc + digit_val c) else None)"
| "parse_digits acc (c # d # cs) =
     (if is_digit c then parse_digits (10 * acc + digit_val c) (d # cs)
      else if c = CHR ''_'' \<and> is_digit d then parse_digits acc (d # cs)
      else None)"

definition py_unsigned :: "string \<Rightarrow> error + nat" where
  "py_unsigned s =
     (case s of
        [] \<Rightarrow> Inl ValueError
      | c # cs \<Rightarrow>
          if is_digit c
          then (case parse_digits 0 (c # cs) of None \<Rightarrow> Inl ValueError | Some n \<Rightarrow> Inr n)
          else Inl ValueError)"

definition py_int :: "string \<Rightarrow> error + int" where
  "py_int s =
     (case strip s of
        [] \<Rightarrow> Inl ValueError
      | c # cs \<Rightarrow>
          if c = CHR ''-'' then map_sum id (\<lambda>n. - int n) (py_unsigned cs)
          else if c = CHR ''+'' then map_sum id int (py_unsigned cs)
          else map_sum id int (py_unsigned (c # cs)))"

subsection \<open>\<^verbatim>\<open>parse_dealer\<close> and \<^verbatim>\<open>build_match\<close>\<close>

text \<open>
  \<^verbatim>\<open>parse_dealer\<close> (lines 64 to 66): the selection \<^verbatim>\<open>"All"\<close> is no dealer (\<^verbatim>\<open>None\<close>); any other
  selection is \<^verbatim>\<open>"<id> | <name>"\<close>, and the text before the first bar is read as an integer.
\<close>

definition parse_dealer :: "string \<Rightarrow> error + int option" where
  "parse_dealer v =
     (if v = ''All'' then Inr None
      else map_sum id Some (py_int (takeWhile (\<lambda>c. c \<noteq> CHR ''|'') v)))"

text \<open>
  Python's truth value of \<^verbatim>\<open>dealer_id_filter\<close>, which is \<^verbatim>\<open>None\<close> or an \<^verbatim>\<open>int\<close>:
  \<^verbatim>\<open>None\<close> and \<^verbatim>\<open>0\<close> are false. \<open>id_value\<close> is the value the driver sends for it.
\<close>

definition truthy_id :: "int option \<Rightarrow> bool" where
  "truthy_id x = (case x of None \<Rightarrow> False | Some n \<Rightarrow> n \<noteq> 0)"

definition id_value :: "int option \<Rightarrow> bson" where
  "id_value x = (case x of None \<Rightarrow> Null | Some n \<Rightarrow> Num (of_int n))"

text \<open>
  \<^verbatim>\<open>build_match\<close> (lines 73 to 84). The globals it reads are its parameters here; the dict is
  the list of its items in insertion order.
\<close>

definition build_match ::
  "string \<Rightarrow> string list \<Rightarrow> int option \<Rightarrow> int \<times> int \<Rightarrow> int \<times> int \<Rightarrow> query" where
  "build_match sel_manufacturer sel_fuel dealer_id_filter price_range year_range =
     (if sel_manufacturer \<noteq> ''All''
      then [(''manufacturer'', Eq (Str sel_manufacturer))] else []) @
     (if sel_fuel \<noteq> []
      then [(''fuel_type'', Ops [In (map Str sel_fuel)])] else []) @
     (if truthy_id dealer_id_filter
      then [(''dealer_id'', Eq (id_value dealer_id_filter))] else []) @
     [(''price'', Ops [Gte (Num (of_int (fst price_range))),
                       Lte (Num (of_int (snd price_range)))]),
      (''year_of_manufacturing'', Ops [Gte (Num (of_int (fst year_range))),
                                       Lte (Num (of_int (snd year_range)))])]"

section \<open>Aggregation pipelines\<close>

text \<open>
  Each pipeline function (lines 93 to 150) builds its list of stages, with the \<^verbatim>\<open>$match\<close>
  stage first when the match dict is not empty, and returns the documents of
  \<^verbatim>\<open>cars_coll.aggregate(pipeline)\<close>.
\<close>

definition match_first :: "query \<Rightarrow> stage list" where
  "match_first m = (if m \<noteq> [] then [Match m] else [])"

definition manufacturer_distribution_pipeline :: "query \<Rightarrow> doc list \<Rightarrow> error + doc list" where
  "manufacturer_distribution_pipeline m cars_coll =
     aggregate (match_first m @
       [Group (IdExpr (Field ''manufacturer'')) ''count'' SumOne,
        Project [(''manufacturer'', Compute (Field ''_id'')), (''count'', Include),
                 (''_id'', Exclude)],
        Sort ''count'' (- 1)]) cars_coll"

definition avg_price_by_manufacturer_pipeline :: "query \<Rightarrow> doc list \<Rightarrow> error + doc list" where
  "avg_price_by_manufacturer_pipeline m cars_coll =
     aggregate (match_first m @
       [Group (IdExpr (Field ''manufacturer'')) ''avg_price'' (Avg (Field ''price'')),
        Project [(''manufacturer'', Compute (Field ''_id'')), (''avg_price'', Include),
                 (''_id'', Exclude)],
        Sort ''avg_price'' (- 1)]) cars_coll"

definition accident_severity_pipeline :: "query \<Rightarrow> doc list \<Rightarrow> error + doc list" where
  "accident_severity_pipeline m cars_coll =
     aggregate (match_first m @
       [Unwind ''accidents'',
        Group (IdExpr (Field ''accidents.Severity'')) ''count'' SumOne,
        Project [(''severity'', Compute (Field ''_id'')), (''count'', Include),
                 (''_id'', Exclude)],
        Sort ''count'' (- 1)]) cars_coll"

definition fuel_distribution_pipeline :: "query \<Rightarrow> doc list \<Rightarrow> error + doc list" where
  "fuel_distribution_pipeline m cars_coll =
     aggregate (match_first m @
       [Group (IdExpr (Field ''fuel_type'')) ''count'' SumOne,
        Project [(''fuel_type'', Compute (Field ''_id'')), (''count'', Include),
                 (''_id'', Exclude)],
        Sort ''count'' (- 1)]) cars_coll"

text \<open>
  Python's \<^verbatim>\<open>datetime(y, m, d)\<close>: midnight of that day, or \<^verbatim>\<open>ValueError\<close> when the year is
  outside 1 to 9999 or the day does not exist in that month.
\<close>

definition is_leap :: "int \<Rightarrow> bool" where
  "is_leap y = (y mod 4 = 0 \<and> (y mod 100 \<noteq> 0 \<or> y mod 400 = 0))"

definition days_in_month :: "int \<Rightarrow> int \<Rightarrow> int" where
  "days_in_month y m =
     (if m = 2 then (if is_leap y then 29 else 28)
      else if m = 4 \<or> m = 6 \<or> m = 9 \<or> m = 11 then 30 else 31)"

definition valid_date :: "int \<Rightarrow> int \<Rightarrow> int \<Rightarrow> bool" where
  "valid_date y m d = (1 \<le> y \<and> y \<le> 9999 \<and> 1 \<le> m \<and> m \<le> 12 \<and> 1 \<le> d \<and> d \<le> days_in_month y m)"

definition datetime_ymd :: "int \<Rightarrow> int \<Rightarrow> int \<Rightarrow> error + datetime" where
  "datetime_ymd y m d =
     (if valid_date y m d then Inr \<lparr>year = y, month = m, day = d, millis = 0\<rparr>
      else Inl ValueError)"

text \<open>
  \<^verbatim>\<open>service_frequency_pipeline\<close> (lines 138 to 150). The clock reading \<^verbatim>\<open>datetime.now()\<close> is
  the parameter \<open>now\<close> (the three readings of line 140 taken as one).
\<close>

definition service_frequency_pipeline :: "datetime \<Rightarrow> query \<Rightarrow> doc list \<Rightarrow> error + doc list" where
  "service_frequency_pipeline now m cars_coll =
     (case datetime_ymd (year now - 5) (month now) (day now) of
        Inl e \<Rightarrow> Inl e
      | Inr cutoff \<Rightarrow>
          aggregate (match_first m @
            [Unwind ''services'',
             Match [(''services.Date_of_Service'', Ops [Gte (Date cutoff)])],
             Group (IdDoc [(''year'', Year (Field ''services.Date_of_Service''))])
                   ''services_count'' SumOne,
             Project [(''year'', Compute (Field ''_id.year'')), (''services_count'', Include),
                      (''_id'', Exclude)],
             Sort ''year'' 1]) cars_coll)"

text \<open>
  For reasoning about the service pipeline: the documents after its \<^verbatim>\<open>$unwind\<close> stage
  (one per embedded service event of a matching vehicle), and the value of
  \<^verbatim>\<open>"$services.Date_of_Service"\<close> in such a document.
\<close>

definition service_events :: "query \<Rightarrow> doc list \<Rightarrow> doc list" where
  "service_events m cars_coll = concat (map (unwind_doc ''services'') (find_docs m cars_coll))"

definition event_date :: "doc \<Rightarrow> bson option" where
  "event_date e = expr_path (split_path ''services.Date_of_Service'') (Doc e)"

text \<open>
  For stating what the pipelines return in terms of the vehicle documents themselves: the
  embedded events of a vehicle are the elements of the array under its \<^verbatim>\<open>accidents\<close> or
  \<^verbatim>\<open>services\<close> field, and a field of an event is read from the event's own document.
\<close>

definition embedded_entries :: "string \<Rightarrow> doc \<Rightarrow> bson list" where
  "embedded_entries f d = (case map_of d f of Some (Arr xs) \<Rightarrow> xs | _ \<Rightarrow> [])"

definition all_entries :: "string \<Rightarrow> doc list \<Rightarrow> bson list" where
  "all_entries f ds = concat (map (embedded_entries f) ds)"

definition entry_field :: "string \<Rightarrow> bson \<Rightarrow> bson option" where
  "entry_field k a = (case a of Doc kvs \<Rightarrow> map_of kvs k | _ \<Rightarrow> None)"

definition severity_of :: "bson \<Rightarrow> bson" where
  "severity_of a = (case entry_field ''Severity'' a of None \<Rightarrow> Null | Some v \<Rightarrow> v)"

section \<open>The price and mileage sample\<close>

text \<open>
  \<^verbatim>\<open>pd.DataFrame(list_of_dicts)\<close>: the columns are the keys that occur, and a row has a cell
  for every column, \<open>None\<close> (NaN) where its dict lacks the key. A frame is the list of its
  rows. A cell is NA when it is NaN or \<^verbatim>\<open>None\<close> (the store's null).
\<close>

type_synonym row = "(string \<times> bson option) list"

definition frame_columns :: "doc list \<Rightarrow> string list" where
  "frame_columns ds = remdups (concat (map (map fst) ds))"

definition data_frame :: "doc list \<Rightarrow> row list" where
  "data_frame ds = map (\<lambda>d. map (\<lambda>c. (c, map_of d c)) (frame_columns ds)) ds"

definition column :: "string \<Rightarrow> row list \<Rightarrow> bson option list" where
  "column c rows = map (\<lambda>r. case map_of r c of None \<Rightarrow> None | Some x \<Rightarrow> x) rows"

definition set_cell :: "string \<Rightarrow> bson option \<Rightarrow> row \<Rightarrow> row" where
  "set_cell c x r = map (\<lambda>(k, y). if k = c then (k, x) else (k, y)) r"

definition is_na :: "bson option \<Rightarrow> bool" where
  "is_na x = (x = None \<or> x = Some Null)"

definition dropna :: "row list \<Rightarrow> row list" where
  "dropna rows = filter (\<lambda>r. list_all (\<lambda>(k, x). \<not> is_na x) r) rows"

text \<open>
  \<^verbatim>\<open>df[c] = pd.to_numeric(df[c], errors="coerce")\<close>: reading a column the frame does not have
  raises \<^verbatim>\<open>KeyError\<close>. The coercion of a column, which pandas defines, is the parameter
  \<open>to_numeric\<close>: it gives, per cell, a number or \<open>None\<close> (NaN).
\<close>

definition assign_numeric ::
  "(bson option list \<Rightarrow> rat option list) \<Rightarrow> string \<Rightarrow> string list \<Rightarrow> row list \<Rightarrow> error + row list" where
  "assign_numeric to_numeric c cols rows =
     (if c \<in> set cols
      then Inr (map (\<lambda>(r, x). set_cell c (map_option Num x) r)
                    (zip rows (to_numeric (column c rows))))
      else Inl KeyError)"

text \<open>\<^verbatim>\<open>fetch_price_mileage\<close> (lines 152 to 160).\<close>

definition fetch_price_mileage ::
  "(bson option list \<Rightarrow> rat option list) \<Rightarrow> query \<Rightarrow> nat \<Rightarrow> doc list \<Rightarrow> error + row list" where
  "fetch_price_mileage to_numeric m limit cars_coll =
     (let query = (if m \<noteq> [] then m else []);
          cursor = limit_cursor limit
            (map (keep_fields [''_id'', ''price'', ''mileage'', ''manufacturer'', ''model'',
                               ''fuel_type''])
                 (find_docs query cars_coll));
          cols = frame_columns cursor;
          df = data_frame cursor
      in if df = [] \<or> cols = [] then Inr []
         else (case assign_numeric to_numeric ''price'' cols df of
                 Inl e \<Rightarrow> Inl e
               | Inr df1 \<Rightarrow>
                   (case assign_numeric to_numeric ''mileage'' cols df1 of
                      Inl e \<Rightarrow> Inl e
                    | Inr df2 \<Rightarrow> Inr (dropna df2))))"

section \<open>Vehicle detail\<close>

text \<open>\<^verbatim>\<open>get_car_detail\<close> (lines 287 to 289).\<close>

definition get_car_detail :: "bson \<Rightarrow> doc list \<Rightarrow> doc option" where
  "get_car_detail car_id cars_coll = find_one [(''_id'', Eq car_id)] cars_coll"

text \<open>
  The vehicle summary of the detail view (lines 301 to 321): nothing is shown when the
  lookup returned \<^verbatim>\<open>None\<close> (or a dict that is empty, which Python also takes as false).
  \<^verbatim>\<open>car.get(k)\<close> is \<^verbatim>\<open>None\<close> for a field the document lacks.
\<close>

record summary =
  shown_manufacturer :: "bson option"
  shown_model :: "bson option"
  shown_price :: "bson option"
  shown_mileage :: "bson option"
  shown_fuel_type :: "bson option"
  shown_engine_size :: "bson option"
  shown_year :: "bson option"
  shown_dealer :: bson

definition dealer_name :: "doc \<Rightarrow> doc list \<Rightarrow> error + bson" where
  "dealer_name car dealers_coll =
     (case find_one [(''DealerID'', Eq (or_null (map_of car ''dealer_id'')))] dealers_coll of
        None \<Rightarrow> Inr (Str ''Unknown'')
      | Some dealer \<Rightarrow>
          if dealer = [] then Inr (Str ''Unknown'')
          else subscript (Some dealer) ''DealerName'')"

definition car_detail_view :: "bson \<Rightarrow> doc list \<Rightarrow> doc list \<Rightarrow> error + summary option" where
  "car_detail_view car_id cars_coll dealers_coll =
     (case get_car_detail car_id cars_coll of
        None \<Rightarrow> Inr None
      | Some car \<Rightarrow>
          if car = [] then Inr None
          else (case dealer_name car dealers_coll of
                  Inl e \<Rightarrow> Inl e
                | Inr n \<Rightarrow>
                    Inr (Some \<lparr>shown_manufacturer = map_of car ''manufacturer'',
                               shown_model = map_of car ''model'',
                               shown_price = map_of car ''price'',
                               shown_mileage = map_of car ''mileage'',
                               shown_fuel_type = map_of car ''fuel_type'',
                               shown_engine_size = map_of car ''engine_size'',
                               shown_year = map_of car ''year_of_manufacturing'',
                               shown_dealer = n\<rparr>)))"

section \<open>Example data\<close>

text \<open>
  A small collection on which the theorems below are instantiated: three vehicles of one
  manufacturer priced 8000, 12000 and 16000 and a fourth of another, with embedded accident
  and service events, one mileage that is not a number, and one dealer.
\<close>

definition service_on :: "int \<Rightarrow> int \<Rightarrow> int \<Rightarrow> nat \<Rightarrow> bson" where
  "service_on y m d ms =
     Doc [(''Date_of_Service'', Date \<lparr>year = y, month = m, day = d, millis = ms\<rparr>)]"

definition accident_of :: "string \<Rightarrow> bson" where
  "accident_of s = Doc [(''Severity'', Str s)]"

definition car1 :: doc where
  "car1 = [(''_id'', Num 1), (''manufacturer'', Str ''Toyota''), (''model'', Str ''Corolla''),
           (''fuel_type'', Str ''Petrol''), (''price'', Num 8000), (''mileage'', Num 60000),
           (''year_of_manufacturing'', Num 2016), (''dealer_id'', Num 1),
           (''accidents'', Arr [accident_of ''Minor'', accident_of ''Major'', accident_of ''Minor'']),
           (''services'', Arr [service_on 2021 11 3 0, service_on 2021 11 2 86399999])]"

definition car2 :: doc where
  "car2 = [(''_id'', Num 2), (''manufacturer'', Str ''Toyota''), (''model'', Str ''Yaris''),
           (''fuel_type'', Str ''Diesel''), (''price'', Num 12000), (''mileage'', Str ''n/a''),
           (''year_of_manufacturing'', Num 2017), (''dealer_id'', Num 2),
           (''accidents'', Arr []),
           (''services'', Arr [service_on 2024 1 15 0])]"

definition car3 :: doc where
  "car3 = [(''_id'', Num 3), (''manufacturer'', Str ''Toyota''), (''model'', Str ''Camry''),
           (''fuel_type'', Str ''Petrol''), (''price'', Num 16000), (''mileage'', Num 30000),
           (''year_of_manufacturing'', Num 2018), (''dealer_id'', Num 1),
           (''accidents'', Arr [accident_of ''Minor'']),
           (''services'', Arr [])]"

definition car4 :: doc where
  "car4 = [(''_id'', Num 4), (''manufacturer'', Str ''Ford''), (''model'', Str ''Focus''),
           (''fuel_type'', Str ''Petrol''), (''price'', Num 9000), (''mileage'', Num 45000),
           (''year_of_manufacturing'', Num 2018), (''dealer_id'', Num 1),
           (''accidents'', Arr [accident_of ''Minor'']),
           (''services'', Arr [service_on 2024 6 1 0])]"

definition sample_cars :: "doc list" where
  "sample_cars = [car1, car2, car3, car4]"

definition sample_dealers :: "doc list" where
  "sample_dealers = [[(''_id'', Num 10), (''DealerID'', Num 1), (''DealerName'', Str ''Acme Motors'')]]"

definition clock :: datetime where
  "clock = \<lparr>year = 2026, month = 11, day = 3, millis = 36000000\<rparr>"

text \<open>A column coercion that keeps the numbers and turns every other cell into NaN.\<close>

definition numbers_only :: "bson option list \<Rightarrow> rat option list" where
  "numbers_only xs = map (\<lambda>x. case x of Some (Num r) \<Rightarrow> Some r | _ \<Rightarrow> None) xs"

text \<open>Three vehicles of one manufacturer priced 1, 2 and 2, whose mean is not a double.\<close>

definition kia_cars :: "doc list" where
  "kia_cars = [[(''_id'', Num 11), (''manufacturer'', Str ''Kia''), (''price'', Num 1)],
               [(''_id'', Num 12), (''manufacturer'', Str ''Kia''), (''price'', Num 2)],
               [(''_id'', Num 13), (''manufacturer'', Str ''Kia''), (''price'', Num 2)]]"

definition toyota_query :: query where
  "toyota_query = build_match ''Toyota'' [''Petrol'', ''Diesel''] None (5000, 20000) (2015, 2023)"

section \<open>Facts about the store's operators\<close>

subsection \<open>Results with errors, grouping and sorting\<close>

lemma collect_total:
  "(\<And>x. x \<in> set xs \<Longrightarrow> g x = Inr (f x)) \<Longrightarrow> collect (map g xs) = Inr (map f xs)"
  by (induction xs) simp_all

lemma zip_key_filter:
  "map snd (filter (\<lambda>(k', d). k' = k) (zip (map key ds) ds)) = filter (\<lambda>d. key d = k) ds"
  by (induction ds) simp_all

lemma group_stage_total:
  assumes keys: "\<And>d. d \<in> set ds \<Longrightarrow> group_key gid d = Inr (key d)"
    and acc: "\<And>g. accumulate acc g = Inr (val g)"
  shows "group_stage gid name acc ds =
           Inr (map (\<lambda>k. [(''_id'', k), (name, val (filter (\<lambda>d. key d = k) ds))])
                    (remdups (map key ds)))"
proof -
  have k: "collect (map (group_key gid) ds) = Inr (map key ds)"
    using keys by (rule collect_total)
  have "collect (map (\<lambda>k. map_sum id (\<lambda>v. [(''_id'', k), (name, v)])
                 (accumulate acc (filter (\<lambda>d. key d = k) ds))) (remdups (map key ds)))
        = Inr (map (\<lambda>k. [(''_id'', k), (name, val (filter (\<lambda>d. key d = k) ds))])
                    (remdups (map key ds)))"
    by (rule collect_total) (simp add: acc)
  then show ?thesis
    by (simp add: group_stage_def k zip_key_filter)
qed

lemma matches_empty: "matches [] d"
  by (simp add: matches_def)

lemma aggregate_match_first:
  "aggregate (match_first m @ ss) coll = aggregate ss (find_docs m coll)"
  by (simp add: match_first_def matches_empty find_docs_def)

lemma insort_key_map:
  "insort_key f (g x) (map g ys) = map g (insort_key (\<lambda>y. f (g y)) x ys)"
  by (induction ys) simp_all

lemma sort_key_map: "sort_key f (map g xs) = map g (sort_key (\<lambda>y. f (g y)) xs)"
  by (induction xs) (simp_all add: insort_key_map)

lemma sum_list_insort_key: "sum_list (map h (insort_key f x xs)) = h x + sum_list (map h xs)"
  for h :: "'a \<Rightarrow> nat"
  by (induction xs) simp_all

lemma sum_list_sort_key: "sum_list (map h (sort_key f xs)) = sum_list (map h xs)"
  for h :: "'a \<Rightarrow> nat"
  by (induction xs) (simp_all add: sum_list_insort_key)

lemma sum_counts_remdups:
  "sum_list (map (\<lambda>k. length (filter (\<lambda>d. key d = k) ds)) (remdups (map key ds))) = length ds"
proof -
  have "length (filter (\<lambda>d. key d = k) ds) = count_list (map key ds) k" for k
    by (induction ds) simp_all
  then have "sum_list (map (\<lambda>k. length (filter (\<lambda>d. key d = k) ds)) (remdups (map key ds)))
      = sum_list (map (count_list (map key ds)) (remdups (map key ds)))" by simp
  also have "\<dots> = sum (count_list (map key ds)) (set (map key ds))"
    by (simp add: sum_list_distinct_conv_sum_set)
  also have "\<dots> = length (map key ds)"
    by (rule sum_count_set) simp_all
  finally show ?thesis by simp
qed

lemma remdups_map_inj: "inj f \<Longrightarrow> remdups (map f xs) = map f (remdups xs)"
  by (induction xs) (auto simp add: inj_def)

lemma order_key_Num_le:
  "(order_key (Some (Num a)) \<le> order_key (Some (Num b))) = (a \<le> b)"
  by (auto simp add: less_eq_prod_def)

lemma sorted_by_num_key:
  "sorted (sort_key (\<lambda>y. order_key (Some (Num (of_int y)))) ys)"
proof -
  have "sorted (map (\<lambda>y. order_key (Some (Num (of_int y))))
          (sort_key (\<lambda>y. order_key (Some (Num (of_int y)))) ys))"
    by (rule sorted_sort_key)
  then have "sorted_wrt (\<lambda>a b. order_key (Some (Num (of_int a))) \<le> order_key (Some (Num (of_int b))))
          (sort_key (\<lambda>y. order_key (Some (Num (of_int y)))) ys)"
    by (simp only: sorted_map)
  then show ?thesis
    by (rule sorted_wrt_mono_rel[rotated]) auto
qed

lemma groups_desc_set: "set (groups_desc K p ds) = field_key p ` set ds"
  by (simp add: groups_desc_def)

lemma groups_desc_distinct: "distinct (groups_desc K p ds)"
  by (simp add: groups_desc_def)

lemma groups_desc_sorted: "sorted_wrt (\<lambda>a b. K b \<le> K a) (groups_desc K p ds)"
proof -
  have "sorted (map K (sort_key K (remdups (map (field_key p) ds))))"
    by (rule sorted_sort_key)
  then show ?thesis
    by (simp add: groups_desc_def sorted_wrt_rev sorted_map)
qed

subsection \<open>Rounding to a double, on examples\<close>

lemma floor_log2_examples:
  "floor_log2 36000 1 = 15" "floor_log2 12000 1 = 13" "floor_log2 5 1 = 2" "floor_log2 5 3 = 0"
  "floor_log2 1 10 = - 4" "floor_log2 9007199254740993 1 = 53"
  by (simp_all add: floor_log2_def times_pow2_def bit_length.simps Let_def)

lemma quotient_of_examples:
  "quotient_of (5 / 3) = (5, 3)" "quotient_of (1 / 10) = (1, 10)"
  by code_simp+

lemma to_double_36000: "to_double 36000 = 36000"
  by (simp add: to_double_def floor_log2_examples times_pow2_def round_half_even_def Let_def)

lemma to_double_12000: "to_double 12000 = 12000"
  by (simp add: to_double_def floor_log2_examples times_pow2_def round_half_even_def Let_def)

lemma to_double_5: "to_double 5 = 5"
  by (simp add: to_double_def floor_log2_examples times_pow2_def round_half_even_def Let_def)

lemma to_double_5_3: "to_double (5 / 3) = 7505999378950827 / 4503599627370496"
  by (simp add: to_double_def quotient_of_examples floor_log2_examples times_pow2_def
      round_half_even_def Let_def)

lemma to_double_tenth: "to_double (1 / 10) = 3602879701896397 / 36028797018963968"
  by (simp add: to_double_def quotient_of_examples floor_log2_examples times_pow2_def
      round_half_even_def Let_def)

lemma to_double_tie: "to_double 9007199254740993 = 9007199254740992"
  by (simp add: to_double_def floor_log2_examples times_pow2_def round_half_even_def Let_def)

subsection \<open>The stages of the pipelines\<close>

lemma group_by_field_stages:
  assumes nn: "new \<noteq> name" "name \<noteq> ''_id''"
    and acc: "\<And>g. accumulate acc g = Inr (val g)"
  shows "aggregate [Group (IdExpr (Field p)) name acc,
        Project [(new, Compute (Field ''_id'')), (name, Include), (''_id'', Exclude)],
        Sort name (- 1)] ds =
     Inr (map (\<lambda>k. [(new, k), (name, val (filter (\<lambda>d. field_key p d = k) ds))])
        (groups_desc (\<lambda>k. order_key (Some (val (filter (\<lambda>d. field_key p d = k) ds)))) p ds))"
proof -
  have g: "group_stage (IdExpr (Field p)) name acc ds =
      Inr (map (\<lambda>k. [(''_id'', k), (name, val (filter (\<lambda>d. field_key p d = k) ds))])
             (remdups (map (field_key p) ds)))"
    by (rule group_stage_total) (simp_all add: field_key_def acc)
  have p: "collect (map (project_doc [(new, Compute (Field ''_id'')), (name, Include), (''_id'', Exclude)]
        \<circ> (\<lambda>k. [(''_id'', k), (name, val (filter (\<lambda>d. field_key p d = k) ds))])) ks)
      = Inr (map (\<lambda>k. [(new, k), (name, val (filter (\<lambda>d. field_key p d = k) ds))]) ks)" for ks
    using nn by (intro collect_total) (simp add: project_doc_def)
  show ?thesis using nn
    by (simp add: g p sort_stage_def sort_key_map rev_map groups_desc_def)
qed

lemma accumulate_avg:
  "accumulate (Avg (Field q)) g =
     Inr (mean (numerics (map (\<lambda>d. expr_path (split_path q) (Doc d)) g)))"
proof -
  have "collect (map (eval_expr (Field q)) g) = Inr (map (\<lambda>d. expr_path (split_path q) (Doc d)) g)"
    by (rule collect_total) simp
  then show ?thesis by simp
qed

lemma expr_path_top: "expr_path [f] (Doc d) = map_of d f"
  by (simp split: option.splits)

lemma numerics_all: "numerics (map (Some \<circ> Num) ps) = ps"
  by (induction ps) (simp_all add: numerics_def)

lemma accumulate_sum: "accumulate SumOne g = Inr (Num (of_nat (length g)))"
  by simp

lemma count_pipeline:
  fixes p :: string and ds :: "doc list"
  assumes new: "new \<noteq> ''count''"
  defines "cnt \<equiv> \<lambda>k. length (filter (\<lambda>d. field_key p d = k) ds)"
  shows "\<exists>ks. aggregate [Group (IdExpr (Field p)) ''count'' SumOne,
        Project [(new, Compute (Field ''_id'')), (''count'', Include), (''_id'', Exclude)],
        Sort ''count'' (- 1)] ds = Inr (map (\<lambda>k. [(new, k), (''count'', Num (of_nat (cnt k)))]) ks) \<and>
      set ks = field_key p ` set ds \<and> distinct ks \<and>
      sum_list (map cnt ks) = length ds \<and> sorted_wrt (\<lambda>a b. b \<le> a) (map cnt ks)"
proof -
  define K where "K k = order_key (Some (Num (of_nat (cnt k))))" for k
  define ks where "ks = groups_desc K p ds"
  have "aggregate [Group (IdExpr (Field p)) ''count'' SumOne,
        Project [(new, Compute (Field ''_id'')), (''count'', Include), (''_id'', Exclude)],
        Sort ''count'' (- 1)] ds = Inr (map (\<lambda>k. [(new, k), (''count'', Num (of_nat (cnt k)))]) ks)"
    unfolding ks_def K_def cnt_def
    by (rule group_by_field_stages[OF _ _ accumulate_sum]) (simp_all add: new)
  moreover have "set ks = field_key p ` set ds" "distinct ks"
    by (simp_all add: ks_def groups_desc_set groups_desc_distinct)
  moreover have "sum_list (map cnt ks) = length ds"
  proof -
    have "sum_list (map cnt ks) = sum_list (map cnt (remdups (map (field_key p) ds)))"
      unfolding ks_def groups_desc_def by (simp add: rev_map[symmetric] sum_list_sort_key)
    also have "\<dots> = length ds"
      unfolding cnt_def by (rule sum_counts_remdups)
    finally show ?thesis .
  qed
  moreover have "sorted_wrt (\<lambda>a b. b \<le> a) (map cnt ks)"
  proof -
    have "sorted_wrt (\<lambda>a b. K b \<le> K a) ks"
      unfolding ks_def by (rule groups_desc_sorted)
    then have "sorted_wrt (\<lambda>a b. cnt b \<le> cnt a) ks"
      by (rule sorted_wrt_mono_rel[rotated]) (auto simp add: K_def)
    then show ?thesis by (simp add: sorted_wrt_map)
  qed
  ultimately show ?thesis by blast
qed

lemma year_key:
  assumes "event_date e = Some (Date t)"
  shows "group_key (IdDoc [(''year'', Year (Field ''services.Date_of_Service''))]) e =
           Inr (Doc [(''year'', Num (of_int (year t)))])"
  using assms by (simp add: event_date_def or_null_def)

lemma project_year_row:
  "project_doc [(''year'', Compute (Field ''_id.year'')), (''services_count'', Include),
                (''_id'', Exclude)]
     [(''_id'', Doc [(''year'', y)]), (''services_count'', v)] =
   Inr [(''year'', y), (''services_count'', v)]"
  by (simp add: project_doc_def)

subsection \<open>Dates and the cutoff\<close>

lemma bson_le_Date: "bson_le (Date c) v = (\<exists>t. v = Date t \<and> stamp c \<le> stamp t)"
  by (cases v) (auto simp add: bson_le_def less_eq_prod_def)

lemma split_services_path: "split_path ''services.Date_of_Service'' = [''services'', ''Date_of_Service'']"
  by simp

lemma date_match:
  assumes "\<forall>xs. event_date e \<noteq> Some (Arr xs)"
  shows "matches [(''services.Date_of_Service'', Ops [Gte (Date c)])] e =
           (\<exists>t. event_date e = Some (Date t) \<and> stamp c \<le> stamp t)"
proof (cases "map_of e ''services''")
  case None
  then show ?thesis
    by (simp add: matches_def event_date_def step_path_def field_of_def op_holds_def
        candidates_def bson_le_Date del: split_path.simps add: split_services_path)
next
  case (Some w)
  show ?thesis
  proof (cases w)
    case (Doc kvs)
    show ?thesis
    proof (cases "map_of kvs ''Date_of_Service''")
      case None
      with Some Doc show ?thesis
        by (simp add: matches_def event_date_def step_path_def field_of_def op_holds_def
        candidates_def bson_le_Date del: split_path.simps add: split_services_path)
    next
      case (Some v)
      with \<open>map_of e ''services'' = Some w\<close> Doc assms show ?thesis
        by (cases v) (simp_all add: matches_def event_date_def step_path_def field_of_def op_holds_def
        candidates_def bson_le_Date del: split_path.simps add: split_services_path)
    qed
  next
    case (Arr xs)
    with Some assms show ?thesis
      by (simp add: event_date_def del: split_path.simps add: split_services_path)
  qed (use Some in \<open>simp_all add: matches_def event_date_def step_path_def field_of_def op_holds_def
        candidates_def bson_le_Date del: split_path.simps add: split_services_path\<close>)
qed

lemma cutoff_exists:
  assumes "valid_date y m d" "6 \<le> y" "\<not> (m = 2 \<and> d = 29)"
  shows "datetime_ymd (y - 5) m d = Inr \<lparr>year = y - 5, month = m, day = d, millis = 0\<rparr>"
  using assms by (auto simp add: datetime_ymd_def valid_date_def days_in_month_def split: if_splits)

lemma leap_day_cutoff:
  assumes "is_leap y"
  shows "datetime_ymd (y - 5) 2 29 = Inl ValueError"
proof -
  from assms have "y mod 4 = 0" by (simp add: is_leap_def)
  then have "(y - 5) mod 4 \<noteq> 0" by presburger
  then have "\<not> is_leap (y - 5)" by (simp add: is_leap_def)
  then show ?thesis by (simp add: datetime_ymd_def valid_date_def days_in_month_def)
qed

subsection \<open>Embedded events\<close>

lemma find_docs_all: "find_docs [] coll = coll"
  by (simp add: find_docs_def matches_empty)

lemma length_filter_key: "length (filter (\<lambda>x. f x = k) xs) = count_list (map f xs) k"
  by (induction xs) simp_all

lemma length_filter_map: "length (filter (\<lambda>x. P (g x)) xs) = length (filter P (map g xs))"
  by (induction xs) simp_all

lemma two_keys_desc:
  assumes "distinct ks" "set ks = {a, b}" "a \<noteq> b" "sorted_wrt (\<lambda>S T. c T \<le> c S) ks"
    "(c b :: nat) < c a"
  shows "ks = [a, b]"
proof -
  from assms(1,2,3) have "length ks = 2"
    by (metis card_2_iff distinct_card)
  then obtain x y where ks: "ks = [x, y]"
    by (cases ks rule: list.exhaust; cases "tl ks" rule: list.exhaust) auto
  with assms(2,3) have "(x = a \<and> y = b) \<or> (x = b \<and> y = a)"
    by (auto simp add: doubleton_eq_iff)
  with ks assms(4,5) show ?thesis by auto
qed

lemma map_of_set_field: "map_of d f = Some v \<Longrightarrow> map_of (set_field f x d) f = Some x"
  by (induction d) (auto simp add: set_field_def split: if_splits)

lemma expr_path_unwound:
  assumes "map_of d f = Some v" "\<forall>ys. a \<noteq> Arr ys"
  shows "expr_path [f, k] (Doc (set_field f a d)) = entry_field k a"
  using assms(2) by (cases a) (simp_all add: map_of_set_field[OF assms(1)] entry_field_def
      split: option.splits)

lemma unwound_values:
  assumes arrays: "\<forall>d\<in>set ds. \<forall>v. map_of d f = Some v \<longrightarrow> v = Null \<or> (\<exists>xs. v = Arr xs)"
    and flat: "\<forall>a\<in>set (all_entries f ds). \<forall>ys. a \<noteq> Arr ys"
  shows "map (\<lambda>e. expr_path [f, k] (Doc e)) (concat (map (unwind_doc f) ds)) =
           map (entry_field k) (all_entries f ds)"
  using assms
proof (induction ds)
  case Nil
  then show ?case by (simp add: all_entries_def)
next
  case (Cons d ds)
  have rest: "map (\<lambda>e. expr_path [f, k] (Doc e)) (concat (map (unwind_doc f) ds)) =
           map (entry_field k) (all_entries f ds)"
    using Cons by (simp add: all_entries_def)
  have here: "map (\<lambda>e. expr_path [f, k] (Doc e)) (unwind_doc f d) =
           map (entry_field k) (embedded_entries f d)"
  proof (cases "map_of d f")
    case None
    then show ?thesis by (simp add: unwind_doc_def unwind_elements_def embedded_entries_def)
  next
    case (Some v)
    with Cons.prems(1) consider "v = Null" | xs where "v = Arr xs" by auto
    then show ?thesis
    proof cases
      case 1
      with Some show ?thesis
        by (simp add: unwind_doc_def unwind_elements_def embedded_entries_def)
    next
      case 2
      have "expr_path [f, k] (Doc (set_field f a d)) = entry_field k a" if "a \<in> set xs" for a
      proof -
        from that Some 2 have "a \<in> set (all_entries f (d # ds))"
          by (simp add: all_entries_def embedded_entries_def)
        with Cons.prems(2) have "\<forall>ys. a \<noteq> Arr ys" by blast
        with Some show ?thesis by (rule expr_path_unwound)
      qed
      with Some 2 show ?thesis
        by (simp add: unwind_doc_def unwind_elements_def embedded_entries_def comp_def
            del: expr_path.simps)
    qed
  qed
  from here rest show ?case by (simp add: all_entries_def)
qed

lemma split_accidents_path: "split_path ''accidents.Severity'' = [''accidents'', ''Severity'']"
  by simp

lemma severity_keys:
  assumes arrays: "\<forall>d\<in>set ds. \<forall>v. map_of d ''accidents'' = Some v \<longrightarrow> v = Null \<or> (\<exists>xs. v = Arr xs)"
    and flat: "\<forall>a\<in>set (all_entries ''accidents'' ds). \<forall>ys. a \<noteq> Arr ys"
  shows "map (field_key ''accidents.Severity'') (concat (map (unwind_doc ''accidents'') ds)) =
           map severity_of (all_entries ''accidents'' ds)"
proof -
  have "map (field_key ''accidents.Severity'') (concat (map (unwind_doc ''accidents'') ds)) =
      map or_null (map (\<lambda>e. expr_path [''accidents'', ''Severity''] (Doc e))
                       (concat (map (unwind_doc ''accidents'') ds)))"
    by (simp add: field_key_def comp_def del: expr_path.simps)
  also have "\<dots> = map or_null (map (entry_field ''Severity'') (all_entries ''accidents'' ds))"
    by (simp only: unwound_values[OF arrays flat])
  also have "\<dots> = map severity_of (all_entries ''accidents'' ds)"
    by (simp add: severity_of_def or_null_def comp_def)
  finally show ?thesis .
qed

lemma service_rows_unwound:
  assumes now: "valid_date (year now) (month now) (day now)" "6 \<le> year now"
      "\<not> (month now = 2 \<and> day now = 29)"
    and cutoff: "cutoff = \<lparr>year = year now - 5, month = month now, day = day now, millis = 0\<rparr>"
    and dated: "\<forall>e\<in>set (service_events m coll). \<forall>xs. event_date e \<noteq> Some (Arr xs)"
  shows "(\<exists>ys. service_frequency_pipeline now m coll =
            Inr (map (\<lambda>y. [(''year'', Num (of_int y)),
                           (''services_count'',
                            Num (of_nat (length (filter
                              (\<lambda>e. \<exists>t. event_date e = Some (Date t) \<and> stamp cutoff \<le> stamp t \<and> year t = y)
                              (service_events m coll)))))]) ys) \<and>
            sorted ys \<and> distinct ys \<and>
            set ys = {y. \<exists>e\<in>set (service_events m coll). \<exists>t.
                         event_date e = Some (Date t) \<and> stamp cutoff \<le> stamp t \<and> year t = y}) \<and>
         (\<forall>e\<in>set (service_events m coll). \<forall>t. event_date e = Some (Date t) \<longrightarrow>
            matches [(''services.Date_of_Service'', Ops [Gte (Date cutoff)])] e =
              (stamp cutoff \<le> stamp t))"
proof -
  define events where "events = service_events m coll"
  define dq :: query where "dq = [(''services.Date_of_Service'', Ops [Gte (Date cutoff)])]"
  define recent where
    "recent e = (\<exists>t. event_date e = Some (Date t) \<and> stamp cutoff \<le> stamp t)" for e
  define yr where "yr e = (case event_date e of Some (Date t) \<Rightarrow> year t | _ \<Rightarrow> 0)" for e
  define Y where "Y y = Doc [(''year'', Num (of_int y))]" for y :: int
  define passing where "passing = filter (matches dq) events"
  define cnt where "cnt y = length (filter (\<lambda>e. yr e = y) passing)" for y
  define ys0 where "ys0 = remdups (map yr passing)"
  define ys where "ys = sort_key (\<lambda>y. order_key (Some (Num (of_int y)))) ys0"
  have m_iff: "matches dq e = recent e" if "e \<in> set events" for e
    unfolding dq_def recent_def using dated that by (intro date_match) (simp add: events_def)
  have pass: "passing = filter recent events"
    unfolding passing_def by (rule filter_cong) (simp_all add: m_iff)
  have key: "group_key (IdDoc [(''year'', Year (Field ''services.Date_of_Service''))]) e = Inr (Y (yr e))"
    if "e \<in> set passing" for e
  proof -
    from that obtain t where "event_date e = Some (Date t)"
      by (auto simp add: pass recent_def)
    then show ?thesis by (simp only: year_key Y_def yr_def) simp
  qed
  have injY: "inj Y" by (simp add: inj_def Y_def)
  have grp: "group_stage (IdDoc [(''year'', Year (Field ''services.Date_of_Service''))])
        ''services_count'' SumOne passing =
      Inr (map (\<lambda>y. [(''_id'', Y y), (''services_count'', Num (of_nat (cnt y)))]) ys0)"
  proof -
    have "group_stage (IdDoc [(''year'', Year (Field ''services.Date_of_Service''))])
        ''services_count'' SumOne passing =
      Inr (map (\<lambda>k. [(''_id'', k), (''services_count'',
                 Num (of_nat (length (filter (\<lambda>e. Y (yr e) = k) passing))))])
             (remdups (map (\<lambda>e. Y (yr e)) passing)))"
      by (rule group_stage_total[where key="\<lambda>e. Y (yr e)" and val="\<lambda>g. Num (of_nat (length g))"])
         (rule key, assumption, rule accumulate_sum)
    moreover have "remdups (map (\<lambda>e. Y (yr e)) passing) = map Y ys0"
      using remdups_map_inj[OF injY, of "map yr passing"] by (simp add: ys0_def comp_def)
    moreover have "(Y a = Y b) = (a = b)" for a b
      by (simp add: Y_def)
    ultimately show ?thesis by (simp add: cnt_def comp_def)
  qed
  have prj: "collect (map (project_doc [(''year'', Compute (Field ''_id.year'')),
                (''services_count'', Include), (''_id'', Exclude)]
          \<circ> (\<lambda>y. [(''_id'', Y y), (''services_count'', Num (of_nat (cnt y)))])) zs) =
        Inr (map (\<lambda>y. [(''year'', Num (of_int y)), (''services_count'', Num (of_nat (cnt y)))]) zs)"
    for zs
    by (rule collect_total) (simp add: Y_def project_year_row)
  have cutoff_ok: "datetime_ymd (year now - 5) (month now) (day now) = Inr cutoff"
    unfolding cutoff by (rule cutoff_exists) (use now in simp_all)
  have res: "service_frequency_pipeline now m coll =
      Inr (map (\<lambda>y. [(''year'', Num (of_int y)), (''services_count'', Num (of_nat (cnt y)))]) ys)"
    unfolding service_frequency_pipeline_def cutoff_ok
    by (simp add: aggregate_match_first del: split_path.simps)
       (simp add: service_events_def[symmetric] events_def[symmetric] dq_def[symmetric]
          passing_def[symmetric] grp prj sort_stage_def sort_key_map ys_def del: split_path.simps)
  have cnt_eq: "cnt y = length (filter
        (\<lambda>e. \<exists>t. event_date e = Some (Date t) \<and> stamp cutoff \<le> stamp t \<and> year t = y) events)" for y
  proof -
    have "filter (\<lambda>e. yr e = y) passing = filter (\<lambda>e. recent e \<and> yr e = y) events"
      by (simp add: pass conj_commute)
    also have "\<dots> = filter
        (\<lambda>e. \<exists>t. event_date e = Some (Date t) \<and> stamp cutoff \<le> stamp t \<and> year t = y) events"
      by (rule filter_cong) (auto simp add: recent_def yr_def)
    finally show ?thesis by (simp add: cnt_def)
  qed
  have set_ys: "set ys = {y. \<exists>e\<in>set events. \<exists>t.
        event_date e = Some (Date t) \<and> stamp cutoff \<le> stamp t \<and> year t = y}"
  proof -
    have eq: "(recent e \<and> yr e = y) =
        (\<exists>t. event_date e = Some (Date t) \<and> stamp cutoff \<le> stamp t \<and> year t = y)" for e y
      by (auto simp add: recent_def yr_def)
    have "set ys = yr ` set passing"
      by (simp add: ys_def ys0_def)
    also have "\<dots> = {y. \<exists>e\<in>set events. recent e \<and> yr e = y}"
      by (auto simp add: pass)
    finally show ?thesis by (simp only: eq)
  qed
  have "sorted ys"
    unfolding ys_def by (rule sorted_by_num_key)
  moreover have "distinct ys"
    by (simp add: ys_def ys0_def)
  ultimately have "sorted ys" "distinct ys" .
  with res set_ys have first: "\<exists>ys. service_frequency_pipeline now m coll =
            Inr (map (\<lambda>y. [(''year'', Num (of_int y)),
                           (''services_count'',
                            Num (of_nat (length (filter
                              (\<lambda>e. \<exists>t. event_date e = Some (Date t) \<and> stamp cutoff \<le> stamp t \<and> year t = y)
                              events))))]) ys) \<and>
            sorted ys \<and> distinct ys \<and>
            set ys = {y. \<exists>e\<in>set events. \<exists>t.
                         event_date e = Some (Date t) \<and> stamp cutoff \<le> stamp t \<and> year t = y}"
    unfolding cnt_eq by blast
  have second: "\<forall>e\<in>set events. \<forall>t. event_date e = Some (Date t) \<longrightarrow>
            matches dq e = (stamp cutoff \<le> stamp t)"
    by (auto simp add: m_iff recent_def)
  from first second show ?thesis unfolding events_def dq_def by blast
qed

subsection \<open>Lookups\<close>

lemma map_of_keep_fields:
  "map_of (keep_fields names d) k = (if k \<in> set names then map_of d k else None)"
  by (induction d) (auto simp add: keep_fields_def)

lemma dealers_dict_error: "dealers_dict str_of acc ds = Inl e \<Longrightarrow> e = KeyError"
  by (induction ds arbitrary: acc) (auto simp add: subscript_def split: option.splits sum.splits)

lemma dealers_dict_total:
  "\<forall>d\<in>set ds. map_of d ''DealerID'' \<noteq> None \<and> map_of d ''DealerName'' \<noteq> None \<Longrightarrow>
   \<exists>dm. dealers_dict str_of acc ds = Inr dm"
  by (induction ds arbitrary: acc) (auto simp add: subscript_def split: option.splits sum.splits)

lemma find_one_sorted_empty: "find_one_sorted f dir [] = None"
  by (simp add: find_one_sorted_def sort_stage_def)

lemma matches_eq_field:
  assumes "map_of d k = Some v" "\<forall>xs. v \<noteq> Arr xs" "CHR ''.'' \<notin> set k"
  shows "matches [(k, Eq b)] d = (v = b)"
proof -
  have "split_path k = [k]"
    using assms(3) by (induction k) (auto split: list.splits)
  then show ?thesis
    using assms(1,2)
    by (cases v) (auto simp add: matches_def step_path_def field_of_def op_holds_def candidates_def)
qed

lemma filter_distinct_key:
  "distinct (map f xs) \<Longrightarrow> x \<in> set xs \<Longrightarrow> filter (\<lambda>y. f y = f x) xs = [x]"
proof (induction xs)
  case Nil
  then show ?case by simp
next
  case (Cons a xs)
  show ?case
  proof (cases "a = x")
    case True
    with Cons.prems have "f x \<notin> f ` set xs" by simp
    then have "\<forall>y\<in>set xs. f y \<noteq> f x" by (metis imageI)
    then have "filter (\<lambda>y. f y = f x) xs = []" by (simp add: filter_empty_conv)
    with True show ?thesis by simp
  next
    case False
    with Cons show ?thesis by auto
  qed
qed

lemma find_one_None: "(find_one q coll = None) = (\<forall>d\<in>set coll. \<not> matches q d)"
proof -
  have "(find_one q coll = None) = (filter (matches q) coll = [])"
    by (simp add: find_one_def find_docs_def split: list.splits)
  then show ?thesis by (simp add: filter_empty_conv)
qed

subsection \<open>Frames\<close>

lemma map_of_set_cell:
  "map_of (set_cell c x r) k =
     (if k = c then (if c \<in> fst ` set r then Some x else None) else map_of r k)"
  by (induction r) (force simp add: set_cell_def image_iff)+

lemma keys_set_cell: "fst ` set (set_cell c x r) = fst ` set r"
  by (induction r) (auto simp add: set_cell_def)

lemma dropna_cell:
  "r \<in> set (dropna rows) \<Longrightarrow> map_of r k = Some x \<Longrightarrow> \<not> is_na x"
  by (auto simp add: dropna_def list_all_iff dest: map_of_SomeD)

lemma keys_data_frame: "r \<in> set (data_frame ds) \<Longrightarrow> fst ` set r = set (frame_columns ds)"
  by (auto simp add: data_frame_def image_iff)

lemma assign_numeric_rows:
  assumes "assign_numeric to_numeric c cols rows = Inr rows'"
  shows "c \<in> set cols \<and> length rows' \<le> length rows \<and>
         (\<forall>r'\<in>set rows'. \<exists>r\<in>set rows. \<exists>x. r' = set_cell c (map_option Num x) r)"
proof -
  from assms have c: "c \<in> set cols"
    and r: "rows' = map (\<lambda>(r, x). set_cell c (map_option Num x) r)
                     (zip rows (to_numeric (column c rows)))"
    by (auto simp add: assign_numeric_def split: if_splits)
  have "\<exists>r\<in>set rows. \<exists>x. r' = set_cell c (map_option Num x) r" if "r' \<in> set rows'" for r'
    using that unfolding r by (auto dest: set_zip_leftD)
  with c r show ?thesis by simp
qed

lemma not_na_numeric: "\<not> is_na (map_option Num x) \<Longrightarrow> \<exists>p. map_option Num x = Some (Num p)"
  by (cases x) (simp_all add: is_na_def)

lemma length_limit_cursor: "0 < n \<Longrightarrow> length (limit_cursor n ds) \<le> n"
  by (simp add: limit_cursor_def)

subsection \<open>The example data\<close>

lemma toyota_selection: "find_docs toyota_query sample_cars = [car1, car2, car3]"
  by (simp add: find_docs_def toyota_query_def sample_cars_def car1_def car2_def car3_def
      car4_def build_match_def truthy_id_def matches_def step_path_def field_of_def
      op_holds_def candidates_def bson_le_def less_eq_prod_def)

lemma all_selection: "find_docs [] sample_cars = sample_cars"
  by (simp add: find_docs_def matches_empty)

lemma sample_ids:
  "\<forall>d\<in>set sample_cars. \<exists>i. map_of d ''_id'' = Some i \<and> (\<forall>xs. i \<noteq> Arr xs)"
  "distinct (map (\<lambda>d. map_of d ''_id'') sample_cars)"
  by (simp_all add: sample_cars_def car1_def car2_def car3_def car4_def)

lemma sample_schema:
  "\<forall>d\<in>set sample_cars. map_of d ''price'' \<noteq> None \<and> map_of d ''mileage'' \<noteq> None"
  by (simp add: sample_cars_def car1_def car2_def car3_def car4_def)

lemma sample_fetch:
  "fetch_price_mileage numbers_only toyota_query 2000 sample_cars =
     Inr [[(''_id'', Some (Num 1)), (''manufacturer'', Some (Str ''Toyota'')),
           (''model'', Some (Str ''Corolla'')), (''fuel_type'', Some (Str ''Petrol'')),
           (''price'', Some (Num 8000)), (''mileage'', Some (Num 60000))],
          [(''_id'', Some (Num 3)), (''manufacturer'', Some (Str ''Toyota'')),
           (''model'', Some (Str ''Camry'')), (''fuel_type'', Some (Str ''Petrol'')),
           (''price'', Some (Num 16000)), (''mileage'', Some (Num 30000))]]"
proof -
  have q: "(if toyota_query \<noteq> [] then toyota_query else []) = toyota_query" by simp
  show ?thesis
    unfolding fetch_price_mileage_def Let_def q toyota_selection
    by (simp add: limit_cursor_def keep_fields_def car1_def car2_def car3_def frame_columns_def
        data_frame_def assign_numeric_def column_def numbers_only_def set_cell_def dropna_def
        is_na_def)
qed

lemma toyota_accident_entries:
  "all_entries ''accidents'' [car1, car2, car3] =
     [accident_of ''Minor'', accident_of ''Major'', accident_of ''Minor'', accident_of ''Minor'']"
  by (simp add: all_entries_def embedded_entries_def car1_def car2_def car3_def)

lemma severity_of_accident: "severity_of (accident_of s) = Str s"
  by (simp add: severity_of_def entry_field_def accident_of_def)

lemma sample_service_entries:
  "all_entries ''services'' sample_cars =
     [service_on 2021 11 3 0, service_on 2021 11 2 86399999, service_on 2024 1 15 0,
      service_on 2024 6 1 0]"
  by (simp add: all_entries_def embedded_entries_def sample_cars_def car1_def car2_def
      car3_def car4_def)

lemma service_on_date:
  "entry_field ''Date_of_Service'' (service_on y m d ms) =
     Some (Date \<lparr>year = y, month = m, day = d, millis = ms\<rparr>)"
  by (simp add: entry_field_def service_on_def)

section \<open>The filter compiler\<close>

text \<open>
  What \<^verbatim>\<open>build_match\<close> puts under each key. The manufacturer constraint is there exactly
  when the selection is not \<^verbatim>\<open>"All"\<close>, the fuel constraint exactly when the list is not
  empty, price and year always; the dealer constraint is there exactly when a dealer id is
  set and is not zero.
\<close>

lemma build_match_manufacturer:
  "map_of (build_match m fs d pr yr) ''manufacturer'' =
     (if m \<noteq> ''All'' then Some (Eq (Str m)) else None)"
  by (simp add: build_match_def)

lemma build_match_fuel:
  "map_of (build_match m fs d pr yr) ''fuel_type'' =
     (if fs \<noteq> [] then Some (Ops [In (map Str fs)]) else None)"
  by (simp add: build_match_def)

lemma build_match_dealer:
  "map_of (build_match m fs d pr yr) ''dealer_id'' =
     (case d of None \<Rightarrow> None | Some n \<Rightarrow> if n = 0 then None else Some (Eq (Num (of_int n))))"
  by (simp add: build_match_def truthy_id_def id_value_def split: option.splits)

lemma build_match_price:
  "map_of (build_match m fs d pr yr) ''price'' =
     Some (Ops [Gte (Num (of_int (fst pr))), Lte (Num (of_int (snd pr)))])"
  by (simp add: build_match_def)

lemma build_match_year:
  "map_of (build_match m fs d pr yr) ''year_of_manufacturing'' =
     Some (Ops [Gte (Num (of_int (fst yr))), Lte (Num (of_int (snd yr)))])"
  by (simp add: build_match_def)

lemma range_holds:
  "cond_holds (Ops [Gte (Num a), Lte (Num b)]) [Num x] = (a \<le> x \<and> x \<le> b)"
  by (auto simp add: op_holds_def candidates_def bson_le_def less_eq_prod_def)

text \<open>
  Claim C1: the predicate holds a dealer equality constraint if and only if a dealer id is
  set, for every set dealer id, 0 included. The code tests the truth value of the id
  (line 79), so the dealer with id 0 is treated as no dealer: the sidebar entry
  \<^verbatim>\<open>"0 | Acme Motors"\<close> parses to the id 0, the predicate built for it has the price and year
  constraints only, and a vehicle of dealer 7 passes it.
\<close>

theorem build_match_dealer_zero:
  "parse_dealer ''0 | Acme Motors'' = Inr (Some 0) \<and>
   build_match ''All'' [] (Some 0) (0, 50000) (1990, 2025) =
     [(''price'', Ops [Gte (Num 0), Lte (Num 50000)]),
      (''year_of_manufacturing'', Ops [Gte (Num 1990), Lte (Num 2025)])] \<and>
   matches (build_match ''All'' [] (Some 0) (0, 50000) (1990, 2025))
     [(''_id'', Num 1), (''dealer_id'', Num 7), (''price'', Num 9000),
      (''year_of_manufacturing'', Num 2018)]"
  by (simp add: parse_dealer_def py_int_def py_unsigned_def strip_def is_space_def
      is_digit_def digit_val_def build_match_def truthy_id_def matches_def
      step_path_def field_of_def op_holds_def candidates_def bson_le_def less_eq_prod_def)

section \<open>The aggregation pipelines\<close>

text \<open>
  Claim C2, as amended: for every predicate and every manufacturer \<open>M\<close>, the average-price
  pipeline returns a row for \<open>M\<close> exactly when some matching vehicle has manufacturer \<open>M\<close>
  (one row per manufacturer; a vehicle without the field counts under null, as the store
  groups it); the row's \<^verbatim>\<open>avg_price\<close> is the store's average of the numeric prices of the
  matching vehicles of \<open>M\<close>, which, when all of them have a numeric price, is the sum of
  their prices rounded to a double, divided by their number and rounded to a double (the
  arithmetic mean itself wherever the sum and the mean are doubles); and the rows are sorted
  by \<^verbatim>\<open>avg_price\<close> descending.
\<close>

theorem avg_price_rows:
  "\<exists>rows. avg_price_by_manufacturer_pipeline m coll = Inr rows \<and>
     (\<forall>M. (\<exists>r\<in>set rows. map_of r ''manufacturer'' = Some M) =
           (\<exists>d\<in>set (find_docs m coll). field_key ''manufacturer'' d = M)) \<and>
     distinct (map (\<lambda>r. map_of r ''manufacturer'') rows) \<and>
     (\<forall>r\<in>set rows. \<forall>M. map_of r ''manufacturer'' = Some M \<longrightarrow>
        map_of r ''avg_price'' =
          Some (mean (numerics (map (\<lambda>d. map_of d ''price'')
                  (filter (\<lambda>d. field_key ''manufacturer'' d = M) (find_docs m coll)))))) \<and>
     (\<forall>r\<in>set rows. \<forall>M ps. map_of r ''manufacturer'' = Some M \<and>
        map (\<lambda>d. map_of d ''price'')
            (filter (\<lambda>d. field_key ''manufacturer'' d = M) (find_docs m coll)) = map (Some \<circ> Num) ps \<longrightarrow>
        ps \<noteq> [] \<and> map_of r ''avg_price'' = Some (Num (to_double (to_double (sum_list ps) / of_nat (length ps))))) \<and>
     sorted_wrt (\<lambda>r s. order_key (map_of s ''avg_price'') \<le> order_key (map_of r ''avg_price'')) rows \<and>
     sorted_wrt (\<lambda>r s. \<forall>a b. map_of r ''avg_price'' = Some (Num a) \<and>
                            map_of s ''avg_price'' = Some (Num b) \<longrightarrow> b \<le> a) rows \<and>
     (\<forall>d. field_key ''manufacturer'' d =
            (case map_of d ''manufacturer'' of None \<Rightarrow> Null | Some v \<Rightarrow> v))"
proof -
  define sel where "sel = find_docs m coll"
  define val where "val g = mean (numerics (map (\<lambda>d. map_of d ''price'') g))" for g :: "doc list"
  define grp where "grp M = filter (\<lambda>d. field_key ''manufacturer'' d = M) sel" for M
  define K where "K k = order_key (Some (val (grp k)))" for k
  define ks where "ks = groups_desc K ''manufacturer'' sel"
  define rows where "rows = map (\<lambda>k. [(''manufacturer'', k), (''avg_price'', val (grp k))]) ks"
  have price: "(\<lambda>d. expr_path (split_path ''price'') (Doc d)) = (\<lambda>d. map_of d ''price'')"
    by (rule ext) (simp split: option.splits)
  have acc: "accumulate (Avg (Field ''price'')) g = Inr (val g)" for g
    by (simp only: accumulate_avg val_def price)
  have res: "avg_price_by_manufacturer_pipeline m coll = Inr rows"
    unfolding avg_price_by_manufacturer_pipeline_def aggregate_match_first sel_def[symmetric]
      rows_def ks_def K_def grp_def
    by (rule group_by_field_stages[OF _ _ acc]) simp_all
  have man: "map (\<lambda>r. map_of r ''manufacturer'') rows = map Some ks"
    by (simp add: rows_def)
  have row: "map_of r ''manufacturer'' = Some M \<Longrightarrow> map_of r ''avg_price'' = Some (val (grp M)) \<and> M \<in> set ks"
    if "r \<in> set rows" for r M
    using that by (auto simp add: rows_def)
  have set_ks: "set ks = field_key ''manufacturer'' ` set sel"
    by (simp add: ks_def groups_desc_set)
  have c1: "(\<exists>r\<in>set rows. map_of r ''manufacturer'' = Some M) =
           (\<exists>d\<in>set sel. field_key ''manufacturer'' d = M)" for M
  proof -
    have "(\<exists>r\<in>set rows. map_of r ''manufacturer'' = Some M) = (M \<in> set ks)"
      by (auto simp add: rows_def)
    then show ?thesis by (auto simp add: set_ks)
  qed
  have c2: "distinct (map (\<lambda>r. map_of r ''manufacturer'') rows)"
    by (simp add: man distinct_map ks_def groups_desc_distinct)
  have c4: "ps \<noteq> [] \<and> map_of r ''avg_price'' = Some (Num (to_double (to_double (sum_list ps) / of_nat (length ps))))"
    if r: "r \<in> set rows" and M: "map_of r ''manufacturer'' = Some M"
      and ps: "map (\<lambda>d. map_of d ''price'') (grp M) = map (Some \<circ> Num) ps" for r M ps
  proof -
    from row[OF r M] have a: "map_of r ''avg_price'' = Some (val (grp M))" and "M \<in> set ks"
      by simp_all
    then obtain d where "d \<in> set sel" "field_key ''manufacturer'' d = M"
      by (auto simp add: set_ks)
    then have "grp M \<noteq> []" by (auto simp add: grp_def filter_empty_conv)
    then have ne: "ps \<noteq> []" using ps by auto
    have "val (grp M) = Num (to_double (to_double (sum_list ps) / of_nat (length ps)))"
      using ne by (simp add: val_def ps numerics_all mean_def)
    with a ne show ?thesis by simp
  qed
  have c5: "sorted_wrt (\<lambda>r s. order_key (map_of s ''avg_price'') \<le> order_key (map_of r ''avg_price'')) rows"
    using groups_desc_sorted[of K "''manufacturer''" sel]
    by (simp add: rows_def sorted_wrt_map ks_def K_def)
  have c6: "sorted_wrt (\<lambda>r s. \<forall>a b. map_of r ''avg_price'' = Some (Num a) \<and>
                            map_of s ''avg_price'' = Some (Num b) \<longrightarrow> b \<le> a) rows"
    using c5 by (rule sorted_wrt_mono_rel[rotated]) (auto simp add: less_eq_prod_def)
  have c7: "\<forall>d. field_key ''manufacturer'' d =
            (case map_of d ''manufacturer'' of None \<Rightarrow> Null | Some v \<Rightarrow> v)"
    by (simp add: field_key_def or_null_def split: option.splits)
  show ?thesis
    unfolding sel_def[symmetric]
    using res c1 c2 row c4 c5 c6 c7 unfolding grp_def val_def by blast
qed

theorem avg_price_rows_witness:
  "\<exists>rows. avg_price_by_manufacturer_pipeline toyota_query sample_cars = Inr rows \<and>
     (\<exists>r\<in>set rows. map_of r ''manufacturer'' = Some (Str ''Toyota'') \<and>
        map_of r ''avg_price'' = Some (Num 12000))"
proof -
  from avg_price_rows[of toyota_query sample_cars] obtain rows where
    res: "avg_price_by_manufacturer_pipeline toyota_query sample_cars = Inr rows"
    and ex: "\<And>M. (\<exists>r\<in>set rows. map_of r ''manufacturer'' = Some M) =
           (\<exists>d\<in>set [car1, car2, car3]. field_key ''manufacturer'' d = M)"
    and avg: "\<And>r M ps. r \<in> set rows \<Longrightarrow> map_of r ''manufacturer'' = Some M \<Longrightarrow>
        map (\<lambda>d. map_of d ''price'')
            (filter (\<lambda>d. field_key ''manufacturer'' d = M) [car1, car2, car3]) = map (Some \<circ> Num) ps \<Longrightarrow>
        map_of r ''avg_price'' = Some (Num (to_double (to_double (sum_list ps) / of_nat (length ps))))"
    unfolding toyota_selection by blast
  have "\<exists>d\<in>set [car1, car2, car3]. field_key ''manufacturer'' d = Str ''Toyota''"
    by (simp add: field_key_def or_null_def car1_def)
  with ex obtain r where r: "r \<in> set rows" "map_of r ''manufacturer'' = Some (Str ''Toyota'')"
    by blast
  have "map (\<lambda>d. map_of d ''price'')
         (filter (\<lambda>d. field_key ''manufacturer'' d = Str ''Toyota'') [car1, car2, car3])
        = map (Some \<circ> Num) [8000, 12000, 16000]"
    by (simp add: field_key_def or_null_def car1_def car2_def car3_def)
  from avg[OF r this] have "map_of r ''avg_price'' = Some (Num 12000)"
    by (simp add: to_double_36000 to_double_12000)
  with res r show ?thesis by blast
qed

text \<open>
  The claim as written, that \<^verbatim>\<open>avg_price\<close> equals the arithmetic mean, fails where the mean
  is not a double: for three vehicles priced 1, 2 and 2 the pipeline returns the double
  nearest to 5/3, which is not 5/3.
\<close>

theorem avg_price_rows_counterexample:
  "avg_price_by_manufacturer_pipeline [] kia_cars =
     Inr [[(''manufacturer'', Str ''Kia''),
           (''avg_price'', Num (7505999378950827 / 4503599627370496))]] \<and>
   (7505999378950827 / 4503599627370496 :: rat) \<noteq> (1 + 2 + 2) / 3"
proof -
  have keys: "map (field_key ''manufacturer'') kia_cars = [Str ''Kia'', Str ''Kia'', Str ''Kia'']"
    by (simp add: kia_cars_def field_key_def or_null_def)
  have prices: "map (\<lambda>d. expr_path (split_path ''price'') (Doc d))
        (filter (\<lambda>d. field_key ''manufacturer'' d = Str ''Kia'') kia_cars) =
      [Some (Num 1), Some (Num 2), Some (Num 2)]"
    by (simp add: kia_cars_def field_key_def or_null_def)
  have avg: "mean (numerics [Some (Num 1), Some (Num 2), Some (Num 2)]) =
      Num (7505999378950827 / 4503599627370496)"
    by (simp add: mean_def numerics_def to_double_5 to_double_5_3)
  have "avg_price_by_manufacturer_pipeline [] kia_cars =
      Inr (map (\<lambda>k. [(''manufacturer'', k),
                     (''avg_price'', mean (numerics (map (\<lambda>d. expr_path (split_path ''price'') (Doc d))
                        (filter (\<lambda>d. field_key ''manufacturer'' d = k) kia_cars))))])
            (groups_desc (\<lambda>k. order_key (Some (mean (numerics
                (map (\<lambda>d. expr_path (split_path ''price'') (Doc d))
                   (filter (\<lambda>d. field_key ''manufacturer'' d = k) kia_cars))))))
               ''manufacturer'' kia_cars))"
    unfolding avg_price_by_manufacturer_pipeline_def aggregate_match_first find_docs_all
    by (rule group_by_field_stages[OF _ _ accumulate_avg]) simp_all
  also have "groups_desc (\<lambda>k. order_key (Some (mean (numerics
                (map (\<lambda>d. expr_path (split_path ''price'') (Doc d))
                   (filter (\<lambda>d. field_key ''manufacturer'' d = k) kia_cars))))))
               ''manufacturer'' kia_cars = [Str ''Kia'']"
    by (simp add: groups_desc_def keys)
  finally have "avg_price_by_manufacturer_pipeline [] kia_cars =
     Inr [[(''manufacturer'', Str ''Kia''),
           (''avg_price'', Num (7505999378950827 / 4503599627370496))]]"
    by (simp only: list.map prices avg)
  then show ?thesis by simp
qed

text \<open>
  Claim C3: for every predicate, the \<^verbatim>\<open>count\<close> fields of the rows of the manufacturer
  distribution are natural numbers that sum to the number of vehicles matching the
  predicate, and so do those of the fuel-type distribution.
\<close>

theorem distribution_counts_sum:
  "(\<exists>rows ns. manufacturer_distribution_pipeline m coll = Inr rows \<and>
       map (\<lambda>r. map_of r ''count'') rows = map (\<lambda>n. Some (Num (of_nat n))) ns \<and>
       sum_list ns = length (find_docs m coll)) \<and>
   (\<exists>rows ns. fuel_distribution_pipeline m coll = Inr rows \<and>
       map (\<lambda>r. map_of r ''count'') rows = map (\<lambda>n. Some (Num (of_nat n))) ns \<and>
       sum_list ns = length (find_docs m coll))"
proof -
  have main: "\<exists>rows ns. aggregate (match_first m @ [Group (IdExpr (Field p)) ''count'' SumOne,
        Project [(new, Compute (Field ''_id'')), (''count'', Include), (''_id'', Exclude)],
        Sort ''count'' (- 1)]) coll = Inr rows \<and>
       map (\<lambda>r. map_of r ''count'') rows = map (\<lambda>n. Some (Num (of_nat n))) ns \<and>
       sum_list ns = length (find_docs m coll)" if new: "new \<noteq> ''count''" for new p
  proof -
    from count_pipeline[OF new, of p "find_docs m coll"] obtain ks where
      rows: "aggregate [Group (IdExpr (Field p)) ''count'' SumOne,
        Project [(new, Compute (Field ''_id'')), (''count'', Include), (''_id'', Exclude)],
        Sort ''count'' (- 1)] (find_docs m coll) =
        Inr (map (\<lambda>k. [(new, k), (''count'', Num (of_nat (length (filter (\<lambda>d. field_key p d = k) (find_docs m coll)))))]) ks)"
      and total: "sum_list (map (\<lambda>k. length (filter (\<lambda>d. field_key p d = k) (find_docs m coll))) ks)
         = length (find_docs m coll)"
      by blast
    have cells: "map (\<lambda>r. map_of r ''count'')
          (map (\<lambda>k. [(new, k), (''count'', Num (of_nat (length (filter (\<lambda>d. field_key p d = k) (find_docs m coll)))))]) ks)
        = map (\<lambda>n. Some (Num (of_nat n))) (map (\<lambda>k. length (filter (\<lambda>d. field_key p d = k) (find_docs m coll))) ks)"
      using new by simp
    show ?thesis
      unfolding aggregate_match_first using rows cells total by blast
  qed
  show ?thesis
    unfolding manufacturer_distribution_pipeline_def fuel_distribution_pipeline_def
    using main[of "''manufacturer''" "''manufacturer''"] main[of "''fuel_type''" "''fuel_type''"]
    by simp
qed

text \<open>
  Claim C4: for every predicate, on vehicles whose \<^verbatim>\<open>accidents\<close> field is an array (or null
  or missing) of entries that are not themselves arrays, the accident-severity pipeline
  returns one row per severity that occurs among the embedded accident entries of the
  matching vehicles, the row's count being the number of those entries with that severity
  (an entry without a \<^verbatim>\<open>Severity\<close> counts under null); the counts sum to the number of
  embedded entries, not of vehicles, and stand in descending order. A vehicle whose array
  has \<open>N\<close> elements is unwound into \<open>N\<close> documents, one per element.
\<close>

theorem accident_severity_rows:
  assumes arrays: "\<forall>d\<in>set (find_docs m coll). \<forall>v. map_of d ''accidents'' = Some v \<longrightarrow>
                     v = Null \<or> (\<exists>xs. v = Arr xs)"
    and flat: "\<forall>a\<in>set (all_entries ''accidents'' (find_docs m coll)). \<forall>ys. a \<noteq> Arr ys"
  shows "(\<exists>ks. accident_severity_pipeline m coll =
            Inr (map (\<lambda>S. [(''severity'', S),
                           (''count'', Num (of_nat (length (filter (\<lambda>a. severity_of a = S)
                              (all_entries ''accidents'' (find_docs m coll))))))]) ks) \<and>
            distinct ks \<and>
            set ks = severity_of ` set (all_entries ''accidents'' (find_docs m coll)) \<and>
            sorted_wrt (\<lambda>S T. length (filter (\<lambda>a. severity_of a = T)
                                   (all_entries ''accidents'' (find_docs m coll)))
                             \<le> length (filter (\<lambda>a. severity_of a = S)
                                   (all_entries ''accidents'' (find_docs m coll)))) ks \<and>
            sum_list (map (\<lambda>S. length (filter (\<lambda>a. severity_of a = S)
                                   (all_entries ''accidents'' (find_docs m coll)))) ks) =
              length (all_entries ''accidents'' (find_docs m coll))) \<and>
         (\<forall>d xs. map_of d ''accidents'' = Some (Arr xs) \<longrightarrow>
            embedded_entries ''accidents'' d = xs \<and>
            unwind_doc ''accidents'' d = map (\<lambda>x. set_field ''accidents'' x d) xs)"
proof -
  define ev where "ev = concat (map (unwind_doc ''accidents'') (find_docs m coll))"
  define en where "en = all_entries ''accidents'' (find_docs m coll)"
  define cnt where "cnt S = length (filter (\<lambda>a. severity_of a = S) en)" for S
  have keys: "map (field_key ''accidents.Severity'') ev = map severity_of en"
    unfolding ev_def en_def using arrays flat by (rule severity_keys)
  have cnt_ev: "length (filter (\<lambda>e. field_key ''accidents.Severity'' e = S) ev) = cnt S" for S
    by (simp add: cnt_def length_filter_key keys)
  from count_pipeline[of "''severity''" "''accidents.Severity''" ev] obtain ks where
    rows: "aggregate [Group (IdExpr (Field ''accidents.Severity'')) ''count'' SumOne,
        Project [(''severity'', Compute (Field ''_id'')), (''count'', Include), (''_id'', Exclude)],
        Sort ''count'' (- 1)] ev = Inr (map (\<lambda>k. [(''severity'', k), (''count'', Num (of_nat (cnt k)))]) ks)"
    and set_ks: "set ks = field_key ''accidents.Severity'' ` set ev"
    and dist: "distinct ks"
    and total: "sum_list (map cnt ks) = length ev"
    and sorted: "sorted_wrt (\<lambda>a b. b \<le> a) (map cnt ks)"
    unfolding cnt_ev by auto
  have res: "accident_severity_pipeline m coll =
      Inr (map (\<lambda>k. [(''severity'', k), (''count'', Num (of_nat (cnt k)))]) ks)"
    unfolding accident_severity_pipeline_def aggregate_match_first
    using rows by (simp add: ev_def)
  have s1: "set ks = severity_of ` set en"
    using set_ks keys by (metis set_map)
  have s2: "sorted_wrt (\<lambda>S T. cnt T \<le> cnt S) ks"
    using sorted by (simp add: sorted_wrt_map)
  have "length ev = length en"
    using keys by (metis length_map)
  with total have s3: "sum_list (map cnt ks) = length en" by simp
  have first: "\<exists>ks. accident_severity_pipeline m coll =
      Inr (map (\<lambda>k. [(''severity'', k), (''count'', Num (of_nat (cnt k)))]) ks) \<and>
      distinct ks \<and> set ks = severity_of ` set en \<and>
      sorted_wrt (\<lambda>S T. cnt T \<le> cnt S) ks \<and> sum_list (map cnt ks) = length en"
    using res dist s1 s2 s3 by blast
  have second: "\<forall>d xs. map_of d ''accidents'' = Some (Arr xs) \<longrightarrow>
            embedded_entries ''accidents'' d = xs \<and>
            unwind_doc ''accidents'' d = map (\<lambda>x. set_field ''accidents'' x d) xs"
    by (simp add: embedded_entries_def unwind_doc_def unwind_elements_def)
  from first second show ?thesis unfolding cnt_def en_def by blast
qed

theorem accident_severity_rows_witness:
  "accident_severity_pipeline toyota_query sample_cars =
     Inr [[(''severity'', Str ''Minor''), (''count'', Num 3)],
          [(''severity'', Str ''Major''), (''count'', Num 1)]] \<and>
   length (find_docs toyota_query sample_cars) = 3"
proof -
  have arrays: "\<forall>d\<in>set (find_docs toyota_query sample_cars). \<forall>v.
      map_of d ''accidents'' = Some v \<longrightarrow> v = Null \<or> (\<exists>xs. v = Arr xs)"
    unfolding toyota_selection by (simp add: car1_def car2_def car3_def)
  have flat: "\<forall>a\<in>set (all_entries ''accidents'' (find_docs toyota_query sample_cars)).
      \<forall>ys. a \<noteq> Arr ys"
    unfolding toyota_selection toyota_accident_entries by (simp add: accident_of_def)
  define cnt where "cnt S = length (filter (\<lambda>a. severity_of a = S)
      [accident_of ''Minor'', accident_of ''Major'', accident_of ''Minor'', accident_of ''Minor''])"
    for S
  have c: "cnt (Str ''Minor'') = 3" "cnt (Str ''Major'') = 1"
    by (simp_all add: cnt_def severity_of_accident)
  from accident_severity_rows[OF arrays flat] obtain ks where
    res: "accident_severity_pipeline toyota_query sample_cars =
        Inr (map (\<lambda>S. [(''severity'', S), (''count'', Num (of_nat (cnt S)))]) ks)"
    and d: "distinct ks"
    and s: "set ks = {Str ''Minor'', Str ''Major''}"
    and o: "sorted_wrt (\<lambda>S T. cnt T \<le> cnt S) ks"
    unfolding toyota_selection toyota_accident_entries cnt_def[symmetric]
    by (auto simp add: severity_of_accident)
  have "ks = [Str ''Minor'', Str ''Major'']"
    using d s _ o by (rule two_keys_desc) (simp_all add: c)
  with res c show ?thesis by (simp add: toyota_selection)
qed

text \<open>
  Claim C5: the service-frequency pipeline counts an embedded service event exactly when
  its \<^verbatim>\<open>Date_of_Service\<close> is a date at or after the cutoff, midnight of the day five years
  before the clock reading (same month and day): an event dated at the cutoff is counted,
  an earlier one is not. The counted events are grouped by the calendar year of their date,
  one row per year that has a counted event, the rows ascending by year. This holds for
  every clock reading for which the cutoff date exists (any valid date but 29 February,
  from the year 6 on), on vehicles whose \<^verbatim>\<open>services\<close> field is an array (or null or missing)
  of entries that are not arrays and whose date is not an array (for an array the \<^verbatim>\<open>$year\<close>
  operator fails).
\<close>

theorem service_frequency_rows:
  assumes now: "valid_date (year now) (month now) (day now)" "6 \<le> year now"
      "\<not> (month now = 2 \<and> day now = 29)"
    and cutoff: "cutoff = \<lparr>year = year now - 5, month = month now, day = day now, millis = 0\<rparr>"
    and arrays: "\<forall>d\<in>set (find_docs m coll). \<forall>v. map_of d ''services'' = Some v \<longrightarrow>
                   v = Null \<or> (\<exists>xs. v = Arr xs)"
    and flat: "\<forall>a\<in>set (all_entries ''services'' (find_docs m coll)).
                 (\<forall>ys. a \<noteq> Arr ys) \<and> (\<forall>ys. entry_field ''Date_of_Service'' a \<noteq> Some (Arr ys))"
  shows "\<exists>ys. service_frequency_pipeline now m coll =
            Inr (map (\<lambda>y. [(''year'', Num (of_int y)),
                           (''services_count'',
                            Num (of_nat (length (filter
                              (\<lambda>a. \<exists>t. entry_field ''Date_of_Service'' a = Some (Date t) \<and>
                                     (year cutoff, month cutoff, day cutoff, millis cutoff)
                                       \<le> (year t, month t, day t, millis t) \<and>
                                     year t = y)
                              (all_entries ''services'' (find_docs m coll))))))]) ys) \<and>
            sorted ys \<and> distinct ys \<and>
            set ys = {y. \<exists>a\<in>set (all_entries ''services'' (find_docs m coll)). \<exists>t.
                         entry_field ''Date_of_Service'' a = Some (Date t) \<and>
                         (year cutoff, month cutoff, day cutoff, millis cutoff)
                           \<le> (year t, month t, day t, millis t) \<and>
                         year t = y}"
proof -
  define ev where "ev = service_events m coll"
  define en where "en = all_entries ''services'' (find_docs m coll)"
  define Q where "Q y v = (\<exists>t. v = Some (Date t) \<and>
      (year cutoff, month cutoff, day cutoff, millis cutoff) \<le> (year t, month t, day t, millis t) \<and>
      year t = y)" for y :: int and v :: "bson option"
  have flat1: "\<forall>a\<in>set (all_entries ''services'' (find_docs m coll)). \<forall>ys. a \<noteq> Arr ys"
    using flat by blast
  have "map (\<lambda>e. expr_path [''services'', ''Date_of_Service''] (Doc e))
          (concat (map (unwind_doc ''services'') (find_docs m coll))) =
        map (entry_field ''Date_of_Service'') (all_entries ''services'' (find_docs m coll))"
    using arrays flat1 by (rule unwound_values)
  moreover have "event_date = (\<lambda>e. expr_path [''services'', ''Date_of_Service''] (Doc e))"
    by (rule ext) (simp only: event_date_def split_services_path)
  ultimately have vals: "map event_date ev = map (entry_field ''Date_of_Service'') en"
    by (simp only: ev_def en_def service_events_def)
  have dated: "\<forall>e\<in>set (service_events m coll). \<forall>xs. event_date e \<noteq> Some (Arr xs)"
  proof
    fix e assume "e \<in> set (service_events m coll)"
    then have "event_date e \<in> set (map event_date ev)" by (simp add: ev_def)
    then obtain a where "a \<in> set en" "event_date e = entry_field ''Date_of_Service'' a"
      unfolding vals by auto
    with flat show "\<forall>xs. event_date e \<noteq> Some (Arr xs)" by (simp add: en_def)
  qed
  from service_rows_unwound[OF now cutoff dated] obtain ys where
    res: "service_frequency_pipeline now m coll =
            Inr (map (\<lambda>y. [(''year'', Num (of_int y)),
                           (''services_count'',
                            Num (of_nat (length (filter (\<lambda>e. Q y (event_date e)) ev))))]) ys)"
    and ord: "sorted ys" "distinct ys"
    and set_ys: "set ys = {y. \<exists>e\<in>set ev. Q y (event_date e)}"
    unfolding Q_def ev_def stamp_def by blast
  have cnt: "length (filter (\<lambda>e. Q y (event_date e)) ev) =
      length (filter (\<lambda>a. Q y (entry_field ''Date_of_Service'' a)) en)" for y
    by (simp only: length_filter_map[of "Q y" event_date] vals
        length_filter_map[of "Q y" "entry_field ''Date_of_Service''", symmetric])
  have "{y. \<exists>e\<in>set ev. Q y (event_date e)} = {y. \<exists>v\<in>set (map event_date ev). Q y v}"
    by auto
  also have "\<dots> = {y. \<exists>a\<in>set en. Q y (entry_field ''Date_of_Service'' a)}"
    unfolding vals by auto
  finally have set_eq: "{y. \<exists>e\<in>set ev. Q y (event_date e)} =
      {y. \<exists>a\<in>set en. Q y (entry_field ''Date_of_Service'' a)}" .
  from res ord set_ys show ?thesis
    unfolding cnt set_eq unfolding Q_def en_def by blast
qed

theorem service_frequency_rows_witness:
  "service_frequency_pipeline clock [] sample_cars =
     Inr [[(''year'', Num 2021), (''services_count'', Num 1)],
          [(''year'', Num 2024), (''services_count'', Num 2)]]"
proof -
  have v: "valid_date (year clock) (month clock) (day clock)" "6 \<le> year clock"
    "\<not> (month clock = 2 \<and> day clock = 29)"
    by (simp_all add: clock_def valid_date_def days_in_month_def)
  have c: "\<lparr>year = 2021, month = 11, day = 3, millis = 0\<rparr> =
      \<lparr>year = year clock - 5, month = month clock, day = day clock, millis = 0\<rparr>"
    by (simp add: clock_def)
  have arrays: "\<forall>d\<in>set (find_docs [] sample_cars). \<forall>v. map_of d ''services'' = Some v \<longrightarrow>
                   v = Null \<or> (\<exists>xs. v = Arr xs)"
    unfolding all_selection
    by (simp add: sample_cars_def car1_def car2_def car3_def car4_def)
  have flat: "\<forall>a\<in>set (all_entries ''services'' (find_docs [] sample_cars)).
                 (\<forall>ys. a \<noteq> Arr ys) \<and> (\<forall>ys. entry_field ''Date_of_Service'' a \<noteq> Some (Arr ys))"
    unfolding all_selection sample_service_entries
    by (simp add: service_on_date) (simp add: service_on_def)
  define cnt where "cnt y = length (filter
      (\<lambda>a. \<exists>t. entry_field ''Date_of_Service'' a = Some (Date t) \<and>
             (2021 :: int, 11 :: int, 3 :: int, 0 :: nat) \<le> (year t, month t, day t, millis t) \<and>
             year t = y)
      [service_on 2021 11 3 0, service_on 2021 11 2 86399999, service_on 2024 1 15 0,
       service_on 2024 6 1 0])" for y :: int
  from service_frequency_rows[OF v c arrays flat] obtain ys where
    res: "service_frequency_pipeline clock [] sample_cars =
        Inr (map (\<lambda>y. [(''year'', Num (of_int y)), (''services_count'', Num (of_nat (cnt y)))]) ys)"
    and ord: "sorted ys" "distinct ys"
    and set_ys: "set ys = {y. \<exists>a\<in>set [service_on 2021 11 3 0, service_on 2021 11 2 86399999,
                    service_on 2024 1 15 0, service_on 2024 6 1 0]. \<exists>t.
                         entry_field ''Date_of_Service'' a = Some (Date t) \<and>
                         (2021 :: int, 11 :: int, 3 :: int, 0 :: nat)
                           \<le> (year t, month t, day t, millis t) \<and>
                         year t = y}"
    unfolding all_selection sample_service_entries cnt_def by auto
  have "set ys = set [2021, 2024]"
    unfolding set_ys by (auto simp add: service_on_date less_eq_prod_def)
  with ord have "ys = [2021, 2024]"
    by (intro sorted_distinct_set_unique) simp_all
  moreover have "cnt 2021 = 1" "cnt 2024 = 2"
    by (simp_all add: cnt_def service_on_date less_eq_prod_def)
  ultimately show ?thesis using res by simp
qed

text \<open>
  Claim C9: on 29 February of a leap year the cutoff computation of line 140 asks for
  29 February five years earlier, a year that is never a leap year; the date constructor
  raises \<^verbatim>\<open>ValueError\<close> and the pipeline returns no rows.
\<close>

theorem leap_day_raises:
  assumes "is_leap (year now)" "month now = 2" "day now = 29"
  shows "service_frequency_pipeline now m coll = Inl ValueError"
  using assms by (simp add: service_frequency_pipeline_def leap_day_cutoff)

theorem leap_day_raises_witness:
  "valid_date 2024 2 29 \<and>
   service_frequency_pipeline \<lparr>year = 2024, month = 2, day = 29, millis = 0\<rparr>
     toyota_query sample_cars = Inl ValueError"
proof -
  have l: "is_leap (year \<lparr>year = 2024, month = 2, day = 29, millis = 0\<rparr>)"
    by (simp add: is_leap_def)
  from leap_day_raises[OF l, of toyota_query sample_cars] show ?thesis
    by (simp add: valid_date_def days_in_month_def is_leap_def)
qed

text \<open>
  Claim C6: for every predicate and every coercion function, whenever the sample returns
  a frame it has at most \<open>limit\<close> rows (the program's limit is 2000; \<^verbatim>\<open>limit(0)\<close> would mean
  no limit) and every row holds a number in \<^verbatim>\<open>price\<close> and in \<^verbatim>\<open>mileage\<close>: a row whose price
  or mileage the coercion turned into NaN is dropped by \<^verbatim>\<open>dropna\<close>. It returns a frame, and
  raises nothing, on every collection whose vehicles all carry a \<^verbatim>\<open>price\<close> and a \<^verbatim>\<open>mileage\<close>
  field, of whatever type. (When no sampled document has one of the two fields, the frame
  has no such column and line 158 or 159 raises \<^verbatim>\<open>KeyError\<close>.)
\<close>

theorem price_mileage_sample:
  assumes limit: "0 < limit"
  shows "(\<forall>rows. fetch_price_mileage to_numeric m limit coll = Inr rows \<longrightarrow>
            length rows \<le> limit \<and>
            (\<forall>r\<in>set rows. \<exists>p q. map_of r ''price'' = Some (Some (Num p)) \<and>
                                  map_of r ''mileage'' = Some (Some (Num q)))) \<and>
         ((\<forall>d\<in>set coll. map_of d ''price'' \<noteq> None \<and> map_of d ''mileage'' \<noteq> None) \<longrightarrow>
            (\<exists>rows. fetch_price_mileage to_numeric m limit coll = Inr rows))"
proof -
  define names where "names = [''_id'', ''price'', ''mileage'', ''manufacturer'', ''model'', ''fuel_type'']"
  define cursor where "cursor = limit_cursor limit (map (keep_fields names) (find_docs m coll))"
  define cols where "cols = frame_columns cursor"
  define df where "df = data_frame cursor"
  have fetch: "fetch_price_mileage to_numeric m limit coll =
      (if df = [] \<or> cols = [] then Inr []
       else (case assign_numeric to_numeric ''price'' cols df of
               Inl e \<Rightarrow> Inl e
             | Inr df1 \<Rightarrow>
                 (case assign_numeric to_numeric ''mileage'' cols df1 of
                    Inl e \<Rightarrow> Inl e
                  | Inr df2 \<Rightarrow> Inr (dropna df2))))"
  proof -
    have q: "(if m \<noteq> [] then m else []) = m" by simp
    show ?thesis
      unfolding fetch_price_mileage_def Let_def q df_def cols_def cursor_def names_def ..
  qed
  have len_df: "length df \<le> limit"
    using limit by (simp add: df_def data_frame_def cursor_def length_limit_cursor)
  have part1: "length rows \<le> limit \<and>
            (\<forall>r\<in>set rows. \<exists>p q. map_of r ''price'' = Some (Some (Num p)) \<and>
                                  map_of r ''mileage'' = Some (Some (Num q)))"
    if res: "fetch_price_mileage to_numeric m limit coll = Inr rows" for rows
  proof (cases "df = [] \<or> cols = []")
    case True
    with res show ?thesis by (simp add: fetch)
  next
    case False
    with res obtain df1 df2 where
      a1: "assign_numeric to_numeric ''price'' cols df = Inr df1" and
      a2: "assign_numeric to_numeric ''mileage'' cols df1 = Inr df2" and
      rows: "rows = dropna df2"
      by (auto simp add: fetch split: sum.splits)
    note p1 = assign_numeric_rows[OF a1] and p2 = assign_numeric_rows[OF a2]
    have "length rows \<le> length df2"
      by (simp add: rows dropna_def)
    with p1 p2 len_df have len: "length rows \<le> limit" by simp
    have cells: "\<exists>p q. map_of r ''price'' = Some (Some (Num p)) \<and>
                      map_of r ''mileage'' = Some (Some (Num q))" if r: "r \<in> set rows" for r
    proof -
      from r have "r \<in> set df2" by (simp add: rows dropna_def)
      with p2 obtain r1 y where r1: "r1 \<in> set df1" "r = set_cell ''mileage'' (map_option Num y) r1"
        by blast
      with p1 obtain r0 x where r0: "r0 \<in> set df" "r1 = set_cell ''price'' (map_option Num x) r0"
        by blast
      have keys: "fst ` set r0 = set cols"
        using r0(1) unfolding df_def cols_def by (rule keys_data_frame)
      have pc: "''price'' \<in> set cols" and mc: "''mileage'' \<in> set cols"
        using p1 p2 by simp_all
      have mil: "map_of r ''mileage'' = Some (map_option Num y)"
        using mc by (simp add: r1(2) r0(2) map_of_set_cell keys_set_cell keys)
      have pri: "map_of r ''price'' = Some (map_option Num x)"
        using pc by (simp add: r1(2) r0(2) map_of_set_cell keys_set_cell keys)
      from dropna_cell[of r df2, OF _ mil] r obtain q where "map_option Num y = Some (Num q)"
        unfolding rows by (auto dest: not_na_numeric)
      moreover from dropna_cell[of r df2, OF _ pri] r obtain p where "map_option Num x = Some (Num p)"
        unfolding rows by (auto dest: not_na_numeric)
      ultimately show ?thesis using mil pri by simp
    qed
    from len cells show ?thesis by blast
  qed
  have part2: "\<exists>rows. fetch_price_mileage to_numeric m limit coll = Inr rows"
    if schema: "\<forall>d\<in>set coll. map_of d ''price'' \<noteq> None \<and> map_of d ''mileage'' \<noteq> None"
  proof (cases "df = [] \<or> cols = []")
    case True
    then show ?thesis by (simp add: fetch)
  next
    case False
    then have "cursor \<noteq> []" by (auto simp add: df_def data_frame_def)
    then obtain d where d: "d \<in> set cursor" by (cases cursor) auto
    then have "d \<in> set (map (keep_fields names) (find_docs m coll))"
      by (auto simp add: cursor_def limit_cursor_def split: if_splits dest: in_set_takeD)
    then obtain d0 where d0: "d0 \<in> set coll" "d = keep_fields names d0"
      by (auto simp add: find_docs_def)
    with schema have "map_of d ''price'' \<noteq> None" "map_of d ''mileage'' \<noteq> None"
      by (simp_all add: map_of_keep_fields names_def)
    then have "''price'' \<in> fst ` set d" "''mileage'' \<in> fst ` set d"
      by (simp_all add: map_of_eq_None_iff)
    with d have "''price'' \<in> set cols" "''mileage'' \<in> set cols"
      by (auto simp add: cols_def frame_columns_def)
    with False show ?thesis
      by (simp add: fetch assign_numeric_def)
  qed
  from part1 part2 show ?thesis by blast
qed

theorem price_mileage_sample_witness:
  "\<exists>rows. fetch_price_mileage numbers_only toyota_query 2000 sample_cars = Inr rows \<and>
     length rows \<le> 2000 \<and>
     list_all (\<lambda>r. \<exists>p q. map_of r ''price'' = Some (Some (Num p)) \<and>
                         map_of r ''mileage'' = Some (Some (Num q))) rows"
proof -
  have l: "0 < (2000 :: nat)" by simp
  from price_mileage_sample[OF l, of numbers_only toyota_query sample_cars] sample_schema
  show ?thesis unfolding list_all_iff by blast
qed

section \<open>Startup on an empty collection\<close>

text \<open>
  Claim C10: when the vehicles collection is empty, \<^verbatim>\<open>load_filter_options\<close> raises: each
  \<^verbatim>\<open>find_one\<close> of lines 48 to 51 returns \<^verbatim>\<open>None\<close>, and the subscript on it is a
  \<^verbatim>\<open>TypeError\<close>. (A dealer document without \<^verbatim>\<open>DealerID\<close> or \<^verbatim>\<open>DealerName\<close> raises
  \<^verbatim>\<open>KeyError\<close> at line 46 before that.) Line 55 calls the function at the top level of the
  script, before any chart is drawn, so no placeholder is shown.
\<close>

theorem empty_collection_startup_raises:
  "(load_filter_options str_of [] dealers_coll = Inl TypeError \<or>
    load_filter_options str_of [] dealers_coll = Inl KeyError) \<and>
   ((\<forall>d\<in>set dealers_coll. map_of d ''DealerID'' \<noteq> None \<and> map_of d ''DealerName'' \<noteq> None) \<longrightarrow>
      load_filter_options str_of [] dealers_coll = Inl TypeError)"
proof -
  define dd where "dd = map (keep_fields [''DealerID'', ''DealerName'']) (find_docs [] dealers_coll)"
  have lfo: "load_filter_options str_of [] dealers_coll =
      (case dealers_dict str_of [] dd of Inl e \<Rightarrow> Inl e | Inr dm \<Rightarrow> Inl TypeError)"
    by (simp add: load_filter_options_def find_one_sorted_empty subscript_def dd_def Let_def
        split: sum.splits)
  have a: "load_filter_options str_of [] dealers_coll = Inl TypeError \<or>
    load_filter_options str_of [] dealers_coll = Inl KeyError"
    unfolding lfo by (auto split: sum.splits dest: dealers_dict_error)
  have b: "load_filter_options str_of [] dealers_coll = Inl TypeError"
    if h: "\<forall>d\<in>set dealers_coll. map_of d ''DealerID'' \<noteq> None \<and> map_of d ''DealerName'' \<noteq> None"
  proof -
    have "\<forall>d\<in>set dd. map_of d ''DealerID'' \<noteq> None \<and> map_of d ''DealerName'' \<noteq> None"
      using h by (auto simp add: dd_def find_docs_def map_of_keep_fields)
    from dealers_dict_total[OF this] obtain dm where "dealers_dict str_of [] dd = Inr dm"
      by blast
    then show ?thesis by (simp add: lfo)
  qed
  from a b show ?thesis by blast
qed

theorem empty_collection_startup_raises_witness:
  "load_filter_options (\<lambda>v. ''1'') [] sample_dealers = Inl TypeError"
proof -
  have "\<forall>d\<in>set sample_dealers. map_of d ''DealerID'' \<noteq> None \<and> map_of d ''DealerName'' \<noteq> None"
    by (simp add: sample_dealers_def)
  with empty_collection_startup_raises[of "\<lambda>v. ''1''" sample_dealers] show ?thesis
    by blast
qed

section \<open>The detail view\<close>

text \<open>
  Claim C7: in a collection whose documents each have an \<^verbatim>\<open>_id\<close> (not an array) and no two
  the same, as the store guarantees, the detail lookup of an identifier that some vehicle
  has returns that vehicle's document, so the manufacturer, model and price shown are its
  fields; the lookup of an identifier that no vehicle has returns \<^verbatim>\<open>None\<close>, nothing is
  shown and nothing is raised.
\<close>

theorem car_detail_lookup:
  assumes ids: "\<forall>d\<in>set cars. \<exists>i. map_of d ''_id'' = Some i \<and> (\<forall>xs. i \<noteq> Arr xs)"
    and uniq: "distinct (map (\<lambda>d. map_of d ''_id'') cars)"
  shows "(\<forall>d\<in>set cars. map_of d ''_id'' = Some cid \<longrightarrow>
            get_car_detail cid cars = Some d \<and>
            car_detail_view cid cars dealers \<noteq> Inr None \<and>
            (\<forall>s. car_detail_view cid cars dealers = Inr (Some s) \<longrightarrow>
               shown_manufacturer s = map_of d ''manufacturer'' \<and>
               shown_model s = map_of d ''model'' \<and>
               shown_price s = map_of d ''price'')) \<and>
         ((\<forall>d\<in>set cars. map_of d ''_id'' \<noteq> Some cid) \<longrightarrow>
            get_car_detail cid cars = None \<and> car_detail_view cid cars dealers = Inr None)"
proof -
  have m: "matches [(''_id'', Eq cid)] d = (map_of d ''_id'' = Some cid)" if "d \<in> set cars" for d
  proof -
    from ids that obtain i where i: "map_of d ''_id'' = Some i" "\<forall>xs. i \<noteq> Arr xs" by blast
    then have "matches [(''_id'', Eq cid)] d = (i = cid)"
      by (intro matches_eq_field) simp_all
    with i show ?thesis by simp
  qed
  have sel: "find_docs [(''_id'', Eq cid)] cars = filter (\<lambda>d. map_of d ''_id'' = Some cid) cars"
    unfolding find_docs_def by (rule filter_cong) (simp_all add: m)
  have known: "get_car_detail cid cars = Some d \<and>
            car_detail_view cid cars dealers \<noteq> Inr None \<and>
            (\<forall>s. car_detail_view cid cars dealers = Inr (Some s) \<longrightarrow>
               shown_manufacturer s = map_of d ''manufacturer'' \<and>
               shown_model s = map_of d ''model'' \<and>
               shown_price s = map_of d ''price'')"
    if d: "d \<in> set cars" "map_of d ''_id'' = Some cid" for d
  proof -
    have "filter (\<lambda>y. map_of y ''_id'' = map_of d ''_id'') cars = [d]"
      using uniq d(1) by (rule filter_distinct_key)
    then have g: "get_car_detail cid cars = Some d"
      by (simp add: get_car_detail_def find_one_def sel d(2))
    have ne: "d \<noteq> []" using d(2) by auto
    show ?thesis
      using g ne by (auto simp add: car_detail_view_def split: sum.splits)
  qed
  have unknown: "get_car_detail cid cars = None \<and> car_detail_view cid cars dealers = Inr None"
    if "\<forall>d\<in>set cars. map_of d ''_id'' \<noteq> Some cid"
  proof -
    from that have "filter (\<lambda>d. map_of d ''_id'' = Some cid) cars = []"
      by (simp add: filter_empty_conv)
    then have "get_car_detail cid cars = None"
      by (simp add: get_car_detail_def find_one_def sel)
    then show ?thesis by (simp add: car_detail_view_def)
  qed
  from known unknown show ?thesis by blast
qed

theorem car_detail_lookup_witness:
  "get_car_detail (Num 3) sample_cars = Some car3 \<and>
   get_car_detail (Num 7) sample_cars = None \<and>
   car_detail_view (Num 7) sample_cars sample_dealers = Inr None \<and>
   (\<exists>s. car_detail_view (Num 3) sample_cars sample_dealers = Inr (Some s) \<and>
        shown_manufacturer s = Some (Str ''Toyota'') \<and> shown_model s = Some (Str ''Camry'') \<and>
        shown_price s = Some (Num 16000))"
proof -
  have in3: "car3 \<in> set sample_cars" "map_of car3 ''_id'' = Some (Num 3)"
    by (simp_all add: sample_cars_def car3_def)
  have no7: "\<forall>d\<in>set sample_cars. map_of d ''_id'' \<noteq> Some (Num 7)"
    by (simp add: sample_cars_def car1_def car2_def car3_def car4_def)
  have f: "map_of car3 ''manufacturer'' = Some (Str ''Toyota'')"
    "map_of car3 ''model'' = Some (Str ''Camry'')" "map_of car3 ''price'' = Some (Num 16000)"
    by (simp_all add: car3_def)
  from car_detail_lookup[OF sample_ids, of "Num 3" sample_dealers] in3
  have k: "get_car_detail (Num 3) sample_cars = Some car3"
    "car_detail_view (Num 3) sample_cars sample_dealers \<noteq> Inr None"
    "\<And>s. car_detail_view (Num 3) sample_cars sample_dealers = Inr (Some s) \<Longrightarrow>
        shown_manufacturer s = map_of car3 ''manufacturer'' \<and>
        shown_model s = map_of car3 ''model'' \<and> shown_price s = map_of car3 ''price''"
    by blast+
  from car_detail_lookup[OF sample_ids, of "Num 7" sample_dealers] no7
  have u: "get_car_detail (Num 7) sample_cars = None"
    "car_detail_view (Num 7) sample_cars sample_dealers = Inr None"
    by blast+
  have "\<exists>s. car_detail_view (Num 3) sample_cars sample_dealers = Inr (Some s)"
    using k(1) by (simp add: car_detail_view_def car3_def dealer_name_def find_one_def
        find_docs_def sample_dealers_def matches_def step_path_def field_of_def op_holds_def
        candidates_def or_null_def subscript_def)
  with k u f show ?thesis by auto
qed

text \<open>
  Claim C8, as amended: when no dealer document matches the vehicle's dealer reference,
  the lookup returns \<^verbatim>\<open>None\<close>, nothing is raised, and the dealer name shown is the
  placeholder \<^verbatim>\<open>"Unknown"\<close>; when a dealer document is found, its \<^verbatim>\<open>DealerName\<close> is shown.
\<close>

theorem dealer_name_fallback:
  "((\<forall>d\<in>set dealers.
        \<not> matches [(''DealerID'', Eq (or_null (map_of car ''dealer_id'')))] d) \<longrightarrow>
      dealer_name car dealers = Inr (Str ''Unknown'') \<and>
      (car \<noteq> [] \<and> get_car_detail cid cars = Some car \<longrightarrow>
         (\<exists>s. car_detail_view cid cars dealers = Inr (Some s) \<and>
              shown_dealer s = Str ''Unknown''))) \<and>
   (\<forall>d v. find_one [(''DealerID'', Eq (or_null (map_of car ''dealer_id'')))] dealers = Some d \<and>
          map_of d ''DealerName'' = Some v \<longrightarrow>
      dealer_name car dealers = Inr v)"
proof -
  define q :: query where "q = [(''DealerID'', Eq (or_null (map_of car ''dealer_id'')))]"
  have missing: "dealer_name car dealers = Inr (Str ''Unknown'')"
    if "\<forall>d\<in>set dealers. \<not> matches q d"
  proof -
    from that have "find_one q dealers = None" by (simp add: find_one_None)
    then show ?thesis by (simp add: dealer_name_def q_def)
  qed
  have view: "\<exists>s. car_detail_view cid cars dealers = Inr (Some s) \<and> shown_dealer s = Str ''Unknown''"
    if "\<forall>d\<in>set dealers. \<not> matches q d" "car \<noteq> []" "get_car_detail cid cars = Some car"
    using that missing by (simp add: car_detail_view_def)
  have found: "dealer_name car dealers = Inr v"
    if "find_one q dealers = Some d" "map_of d ''DealerName'' = Some v" for d v
  proof -
    from that(2) have "d \<noteq> []" by auto
    with that show ?thesis by (simp add: dealer_name_def q_def subscript_def)
  qed
  from missing view found show ?thesis unfolding q_def by blast
qed

theorem dealer_name_fallback_witness:
  "dealer_name car2 sample_dealers = Inr (Str ''Unknown'') \<and>
   dealer_name car1 sample_dealers = Inr (Str ''Acme Motors'')"
proof -
  have none: "\<forall>d\<in>set sample_dealers.
      \<not> matches [(''DealerID'', Eq (or_null (map_of car2 ''dealer_id'')))] d"
    by (simp add: sample_dealers_def car2_def or_null_def matches_def step_path_def
        field_of_def op_holds_def candidates_def)
  have one: "find_one [(''DealerID'', Eq (or_null (map_of car1 ''dealer_id'')))] sample_dealers =
      Some [(''_id'', Num 10), (''DealerID'', Num 1), (''DealerName'', Str ''Acme Motors'')]"
    by (simp add: find_one_def find_docs_def sample_dealers_def car1_def or_null_def matches_def
        step_path_def field_of_def op_holds_def candidates_def)
  have name: "map_of [(''_id'', Num 10), (''DealerID'', Num 1), (''DealerName'', Str ''Acme Motors'')]
      ''DealerName'' = Some (Str ''Acme Motors'')"
    by simp
  from dealer_name_fallback[of sample_dealers car2] none
  have a: "dealer_name car2 sample_dealers = Inr (Str ''Unknown'')" by blast
  from dealer_name_fallback[of sample_dealers car1] one name
  have b: "dealer_name car1 sample_dealers = Inr (Str ''Acme Motors'')" by blast
  from a b show ?thesis by simp
qed

text \<open>
  The claim as written names the placeholder \<^verbatim>\<open>"unknown"\<close>; the string of line 320 is
  \<^verbatim>\<open>"Unknown"\<close>, so for a vehicle whose dealer is missing the name shown is not \<^verbatim>\<open>"unknown"\<close>.
\<close>

theorem dealer_name_fallback_counterexample:
  "find_one [(''DealerID'', Eq (or_null (map_of car2 ''dealer_id'')))] sample_dealers = None \<and>
   dealer_name car2 sample_dealers = Inr (Str ''Unknown'') \<and>
   dealer_name car2 sample_dealers \<noteq> Inr (Str ''unknown'')"
proof -
  have "find_one [(''DealerID'', Eq (or_null (map_of car2 ''dealer_id'')))] sample_dealers = None"
    by (simp add: find_one_def find_docs_def sample_dealers_def car2_def or_null_def matches_def
        step_path_def field_of_def op_holds_def candidates_def)
  then show ?thesis by (simp add: dealer_name_def)
qed

end
